theory Spec2Isabelle
  imports Main
begin

section \<open>Optimization records (mars/optimization/logical/core.py)\<close>

text \<open>
  Python values that may be \<open>None\<close> are modelled as \<open>'e option\<close>, where \<open>'e\<close> is the
  type of entity identities and \<open>None\<close> is Python's \<open>None\<close>. Exceptions are values of
  the type \<open>error\<close>. A computation that may loop forever returns an \<open>option\<close> whose
  \<open>None\<close> means "does not return".
\<close>

datatype error =
  ValueError | KeyError | AssertionError | TypeError | AttributeError | IndexError |
  StopIteration | RecursionError

datatype OptimizationRecordType = replace | new | delete

record 'e OptimizationRecord =
  original_entity :: "'e option"
  new_entity :: "'e option"
  record_type :: OptimizationRecordType

record 'e OptimizationRecords =
  records :: "'e OptimizationRecord list"
  original_entity_to_records :: "'e option \<rightharpoonup> 'e OptimizationRecord"
  optimized_entity_to_records :: "'e option \<rightharpoonup> 'e OptimizationRecord"

text \<open>\<open>OptimizationRecords.__init__\<close>\<close>

definition init_records :: "'e OptimizationRecords" where
  "init_records =
     \<lparr>records = [], original_entity_to_records = Map.empty,
      optimized_entity_to_records = Map.empty\<rparr>"

text \<open>\<open>OptimizationRecords.append_record\<close>\<close>

definition append_record ::
  "'e OptimizationRecords \<Rightarrow> 'e OptimizationRecord \<Rightarrow> 'e OptimizationRecords" where
  "append_record s r =
     (let s1 = s\<lparr>records := records s @ [r]\<rparr>;
          s2 = (if record_type r = replace \<or> record_type r = delete
                then s1\<lparr>original_entity_to_records :=
                          (original_entity_to_records s1)(original_entity r \<mapsto> r)\<rparr>
                else s1)
      in if record_type r = new \<or> record_type r = replace
         then s2\<lparr>optimized_entity_to_records :=
                   (optimized_entity_to_records s2)(new_entity r \<mapsto> r)\<rparr>
         else s2)"

text \<open>
  The \<open>while\<close> loop of \<open>get_optimization_result\<close> (lines 69-76): follow \<open>replace\<close>
  records, stop with \<open>None\<close> at a \<open>delete\<close> record, fail the assertion at any other
  record, and return the entity reached once it has no record.
\<close>

partial_function (option) forward_loop ::
  "('e option \<rightharpoonup> 'e OptimizationRecord) \<Rightarrow> 'e option \<Rightarrow> (error + 'e option) option" where
  "forward_loop m entity =
     (case m entity of
        None \<Rightarrow> Some (Inr entity)
      | Some r \<Rightarrow>
          (if record_type r = replace then forward_loop m (new_entity r)
           else if record_type r = delete then Some (Inr None)
           else Some (Inl AssertionError)))"

declare forward_loop.simps [code]

definition get_optimization_result ::
  "'e OptimizationRecords \<Rightarrow> 'e option \<Rightarrow> 'e option \<Rightarrow> (error + 'e option) option" where
  "get_optimization_result s original dflt =
     (if original_entity_to_records s original = None then Some (Inr dflt)
      else forward_loop (original_entity_to_records s) original)"

text \<open>The \<open>while\<close> loop of \<open>get_original_entity\<close> (lines 84-91).\<close>

partial_function (option) backward_loop ::
  "('e option \<rightharpoonup> 'e OptimizationRecord) \<Rightarrow> 'e option \<Rightarrow> (error + 'e option) option" where
  "backward_loop m entity =
     (case m entity of
        None \<Rightarrow> Some (Inr entity)
      | Some r \<Rightarrow>
          (if record_type r = replace then backward_loop m (original_entity r)
           else if record_type r = new then Some (Inr None)
           else Some (Inl AssertionError)))"

declare backward_loop.simps [code]

definition get_original_entity ::
  "'e OptimizationRecords \<Rightarrow> 'e option \<Rightarrow> 'e option \<Rightarrow> (error + 'e option) option" where
  "get_original_entity s optimized dflt =
     (if optimized_entity_to_records s optimized = None then Some (Inr dflt)
      else backward_loop (optimized_entity_to_records s) optimized)"

text \<open>The store after a sequence of calls of \<open>append_record\<close>, in order.\<close>

definition append_records ::
  "'e OptimizationRecords \<Rightarrow> 'e OptimizationRecord list \<Rightarrow> 'e OptimizationRecords" where
  "append_records s rs = fold (\<lambda>r s'. append_record s' r) rs s"

text \<open>
  The record \<open>r\<close> is one that \<open>append_record\<close> enters in the index of originals, or in
  the index of replacements, under the key \<open>x\<close>; there it takes the place of the
  record that the index held for \<open>x\<close>.
\<close>

definition indexed_as_original :: "'e OptimizationRecord \<Rightarrow> 'e option \<Rightarrow> bool" where
  "indexed_as_original r x \<longleftrightarrow>
     (record_type r = replace \<or> record_type r = delete) \<and> original_entity r = x"

definition indexed_as_optimized :: "'e OptimizationRecord \<Rightarrow> 'e option \<Rightarrow> bool" where
  "indexed_as_optimized r x \<longleftrightarrow>
     (record_type r = new \<or> record_type r = replace) \<and> new_entity r = x"

text \<open>
  The forward chain of an entity reaches a \<open>delete\<close> record after finitely many
  \<open>replace\<close> hops.
\<close>

inductive chain_deleted ::
  "('e option \<rightharpoonup> 'e OptimizationRecord) \<Rightarrow> 'e option \<Rightarrow> bool" for m where
  here: "m a = Some r \<Longrightarrow> record_type r = delete \<Longrightarrow> chain_deleted m a"
| hop: "m a = Some r \<Longrightarrow> record_type r = replace \<Longrightarrow> chain_deleted m (new_entity r)
        \<Longrightarrow> chain_deleted m a"

code_pred chain_deleted .


section \<open>Entities and the entity graph\<close>

text \<open>
  An entity is identified by a value of type \<open>'n\<close>; its attributes \<open>key\<close>, \<open>inputs\<close>
  and \<open>outputs\<close> are read through a table of attributes, so that assigning
  \<open>succ.inputs\<close> is an update of the table and leaves the identity alone. \<open>inputs\<close> and
  \<open>outputs\<close> list entities, and the code reads their \<open>key\<close>.
\<close>

record ('n, 'k) entities =
  key :: "'n \<Rightarrow> 'k"
  inputs :: "'n \<Rightarrow> 'n list"
  outputs :: "'n \<Rightarrow> 'n list"

text \<open>
  Modelled from the spec: \<open>EntityGraph\<close> (mars/core/graph) is not among the source
  files. The spec describes it as the owner of the node set, of the edges and of the
  ordered \<open>results\<close> list, with add/remove node, predecessor/successor queries and a
  membership test, and attaches no failure to these operations. Nodes and edges are
  kept in insertion order. \<open>results\<close> may hold \<open>None\<close>, which \<open>optimize\<close> stores there
  for a result that resolves to nothing.
\<close>

record 'n EntityGraph =
  nodes :: "'n list"
  edges :: "('n \<times> 'n) list"
  results :: "'n option list"

text \<open>Modelled from the spec: \<open>graph.iter_nodes()\<close>, the nodes in a fixed order.\<close>

definition iter_nodes :: "'n EntityGraph \<Rightarrow> 'n list" where
  "iter_nodes g = nodes g"

text \<open>Modelled from the spec: \<open>node in graph\<close>, the membership test.\<close>

definition contains :: "'n EntityGraph \<Rightarrow> 'n \<Rightarrow> bool" where
  "contains g n = (n \<in> set (nodes g))"

text \<open>Modelled from the spec: \<open>graph.add_node(node)\<close>; a node already there stays once.\<close>

definition add_node :: "'n EntityGraph \<Rightarrow> 'n \<Rightarrow> 'n EntityGraph" where
  "add_node g n = (if n \<in> set (nodes g) then g else g\<lparr>nodes := nodes g @ [n]\<rparr>)"

text \<open>
  Modelled from the spec: \<open>graph.remove_node(node)\<close> removes the node and its incident
  edges; \<open>results\<close> is a separate list and is not touched.
\<close>

definition remove_node :: "'n EntityGraph \<Rightarrow> 'n \<Rightarrow> 'n EntityGraph" where
  "remove_node g n =
     g\<lparr>nodes := removeAll n (nodes g),
       edges := filter (\<lambda>(u, v). u \<noteq> n \<and> v \<noteq> n) (edges g)\<rparr>"

text \<open>Modelled from the spec: \<open>graph.add_edge(u, v)\<close>; an edge already there stays once.\<close>

definition add_edge :: "'n EntityGraph \<Rightarrow> 'n \<Rightarrow> 'n \<Rightarrow> 'n EntityGraph" where
  "add_edge g u v = (if (u, v) \<in> set (edges g) then g else g\<lparr>edges := edges g @ [(u, v)]\<rparr>)"

text \<open>Modelled from the spec: \<open>graph.successors(n)\<close> and \<open>graph.iter_successors(n)\<close>.\<close>

definition successors :: "'n EntityGraph \<Rightarrow> 'n \<Rightarrow> 'n list" where
  "successors g n = map snd (filter (\<lambda>(u, v). u = n) (edges g))"

text \<open>Modelled from the spec: \<open>graph.predecessors(n)\<close> and \<open>graph.iter_predecessors(n)\<close>.\<close>

definition predecessors :: "'n EntityGraph \<Rightarrow> 'n \<Rightarrow> 'n list" where
  "predecessors g n = map fst (filter (\<lambda>(u, v). v = n) (edges g))"

section \<open>\<open>OptimizationRule._replace_subgraph\<close>\<close>

text \<open>The inner loop \<open>for output in node.outputs: output_to_node[output.key] = node\<close>.\<close>

definition index_outputs ::
  "('n, 'k) entities \<Rightarrow> 'n \<Rightarrow> ('k \<rightharpoonup> 'n) \<Rightarrow> ('k \<rightharpoonup> 'n)" where
  "index_outputs E node m = fold (\<lambda>output m'. m'(key E output \<mapsto> node)) (outputs E node) m"

text \<open>
  Lines 176-180: the outputs of the nodes of the input graph, with the \<open>ValueError\<close>
  for a node that is in \<open>nodes_to_remove\<close>.
\<close>

fun index_subgraph ::
  "('n, 'k) entities \<Rightarrow> 'n list \<Rightarrow> 'n list \<Rightarrow> ('k \<rightharpoonup> 'n) \<Rightarrow> error + ('k \<rightharpoonup> 'n)" where
  "index_subgraph E nodes_to_remove [] m = Inr m"
| "index_subgraph E nodes_to_remove (node # ns) m =
     (if node \<in> set nodes_to_remove then Inl ValueError
      else index_subgraph E nodes_to_remove ns (index_outputs E node m))"

text \<open>Lines 183-186: the outputs of the nodes of the original graph that stay.\<close>

definition index_original ::
  "('n, 'k) entities \<Rightarrow> 'n list \<Rightarrow> 'n list \<Rightarrow> ('k \<rightharpoonup> 'n) \<Rightarrow> ('k \<rightharpoonup> 'n)" where
  "index_original E nodes_to_remove ns m =
     fold (\<lambda>node m'. if node \<notin> set nodes_to_remove then index_outputs E node m' else m') ns m"

text \<open>
  Lines 193-196: the successors of a removed node that are not removed themselves. The
  source collects them in a set; the list has no duplicates.
\<close>

definition affected_successors :: "'n EntityGraph \<Rightarrow> 'n list \<Rightarrow> 'n list" where
  "affected_successors g nodes_to_remove =
     remdups (concat (map (\<lambda>node. filter (\<lambda>s. s \<notin> set nodes_to_remove) (successors g node))
                          nodes_to_remove))"

text \<open>
  Lines 214-217: \<open>output_to_node[inp.key]\<close> raises \<open>KeyError\<close> for a key that is not in
  the dictionary; the graph returned with the error is the graph at that moment.
\<close>

fun connect_inputs ::
  "('n, 'k) entities \<Rightarrow> ('k \<rightharpoonup> 'n) \<Rightarrow> 'n \<Rightarrow> 'n list \<Rightarrow> 'n EntityGraph
     \<Rightarrow> error option \<times> 'n EntityGraph" where
  "connect_inputs E output_to_node node [] g = (None, g)"
| "connect_inputs E output_to_node node (inp # inps) g =
     (case output_to_node (key E inp) of
        None \<Rightarrow> (Some KeyError, g)
      | Some pred_node \<Rightarrow> connect_inputs E output_to_node node inps (add_edge g pred_node node))"

fun connect_nodes ::
  "('n, 'k) entities \<Rightarrow> ('k \<rightharpoonup> 'n) \<Rightarrow> 'n list \<Rightarrow> 'n EntityGraph
     \<Rightarrow> error option \<times> 'n EntityGraph" where
  "connect_nodes E output_to_node [] g = (None, g)"
| "connect_nodes E output_to_node (node # ns) g =
     (case connect_inputs E output_to_node node (inputs E node) g of
        (Some e, g') \<Rightarrow> (Some e, g')
      | (None, g') \<Rightarrow> connect_nodes E output_to_node ns g')"

text \<open>
  \<open>_replace_subgraph\<close> (lines 164-219) on the graph \<open>g\<close> of the rule. The input graph is
  optional; \<open>nodes_to_remove\<close>, \<open>new_results\<close> and \<open>results_to_remove\<close> are lists, the
  empty list standing for \<open>None\<close> as well, as \<open>x or set()\<close> and \<open>x or list()\<close> make it.
  The result is the exception raised, if any, and the graph as the call leaves it.
  \<open>final_results\<close> is a set in the source and \<open>list(final_results)\<close> has no fixed
  order: the model keeps the order of insertion, without duplicates.
\<close>

definition replace_subgraph ::
  "('n, 'k) entities \<Rightarrow> 'n EntityGraph option \<Rightarrow> 'n list \<Rightarrow> 'n list \<Rightarrow> 'n list
     \<Rightarrow> 'n EntityGraph \<Rightarrow> error option \<times> 'n EntityGraph" where
  "replace_subgraph E graph nodes_to_remove new_results results_to_remove g =
     (let final_results = filter (\<lambda>x. x \<notin> set (map Some results_to_remove)) (results g) in
      case (case graph of
              None \<Rightarrow> Inr Map.empty
            | Some sub \<Rightarrow> index_subgraph E nodes_to_remove (iter_nodes sub) Map.empty) of
        Inl e \<Rightarrow> (Some e, g)
      | Inr m \<Rightarrow>
          (let output_to_node = index_original E nodes_to_remove (iter_nodes g) m in
           if \<exists>result \<in> set new_results. output_to_node (key E result) = None
           then (Some ValueError, g)
           else
             (let final_results' = final_results @ map Some new_results;
                  affected = affected_successors g nodes_to_remove in
              if \<exists>s \<in> set affected. \<exists>inp \<in> set (inputs E s).
                   output_to_node (key E inp) = None
              then (Some ValueError, g)
              else
                (let g1 = fold (\<lambda>node g'. remove_node g' node) nodes_to_remove g in
                 case graph of
                   None \<Rightarrow> (None, g1)
                 | Some sub \<Rightarrow>
                     (let g2 = fold (\<lambda>node g'. add_node g' node) (iter_nodes sub) g1 in
                      case connect_nodes E output_to_node (iter_nodes sub @ affected) g2 of
                        (Some e, g3) \<Rightarrow> (Some e, g3)
                      | (None, g3) \<Rightarrow> (None, g3\<lparr>results := remdups final_results'\<rparr>))))))"

text \<open>
  The merged index of output keys that the three checks of \<open>_replace_subgraph\<close> speak
  of: the outputs of every node of the input graph, then those of every node of the
  original graph that is not removed.
\<close>

definition merged_index ::
  "('n, 'k) entities \<Rightarrow> 'n EntityGraph option \<Rightarrow> 'n list \<Rightarrow> 'n EntityGraph \<Rightarrow> ('k \<rightharpoonup> 'n)" where
  "merged_index E graph nodes_to_remove g =
     index_original E nodes_to_remove (iter_nodes g)
       (fold (index_outputs E) (case graph of None \<Rightarrow> [] | Some sub \<Rightarrow> iter_nodes sub) Map.empty)"

text \<open>The nodes of the optional input graph; no graph, no nodes.\<close>

definition sub_nodes :: "'n EntityGraph option \<Rightarrow> 'n list" where
  "sub_nodes graph = (case graph of None \<Rightarrow> [] | Some sub \<Rightarrow> iter_nodes sub)"

section \<open>The state a rule works on\<close>

text \<open>
  \<open>EvalExtractRecord\<close> (arithmetic_query.py, lines 36-39). \<open>variables\<close> is a dictionary
  from names to scalars, kept as a list of pairs in the order of insertion.
\<close>

record ('n, 'v) EvalExtractRecord =
  tileable :: "'n option"
  expr :: "string option"
  variables :: "(string \<times> 'v) list option"

text \<open>
  An \<open>OptimizationRule\<close> holds the graph (\<open>self._graph\<close>) and the records
  (\<open>self._records\<close>) it was created with, and reads and assigns attributes of entities.
  Three more things are read and written by rules and belong to no call of \<open>optimize\<close>
  and to no rule instance:
  \<^item> \<open>_preds_to_remove\<close>, an attribute of the class \<open>OptimizationRule\<close> (core.py, line
    95), one dictionary for all rules;
  \<^item> \<open>_extract_result_cache\<close>, a dictionary of the module arithmetic_query.py (line 68);
  \<^item> \<open>_var_counter\<close>, an attribute of the class \<open>SeriesArithmeticToEval\<close>
    (arithmetic_query.py, line 145), which starts at 0 and is only ever incremented.

  The two dictionaries are \<open>WeakKeyDictionary\<close>s: an entry lives as long as its key.
  The model keeps every entry, which is what happens while the caller holds the nodes
  of the graph. The values of \<open>_preds_to_remove\<close> are sets in the source and lists
  without duplicates here.
\<close>

record ('n, 'k, 'v) rule_state =
  rule_graph :: "'n EntityGraph"
  rule_entities :: "('n, 'k) entities"
  rule_records :: "'n OptimizationRecords"
  preds_to_remove :: "'n \<rightharpoonup> 'n list"
  extract_result_cache :: "'n \<rightharpoonup> ('n, 'v) EvalExtractRecord"
  var_counter :: nat

text \<open>
  \<open>_add_collapsable_predecessor\<close> (lines 221-226). The membership test is on
  \<open>predecessor\<close> and the entry read and written is the one of \<open>pred_original\<close>, as in the
  source. A \<open>WeakKeyDictionary\<close> raises \<open>TypeError\<close> when the key of an assignment or
  of a subscript is \<open>None\<close>, and \<open>KeyError\<close> when a subscript finds no entry.
\<close>

definition add_collapsable_predecessor ::
  "('n, 'k, 'v) rule_state \<Rightarrow> 'n \<Rightarrow> 'n \<Rightarrow> (error option \<times> ('n, 'k, 'v) rule_state) option" where
  "add_collapsable_predecessor w node predecessor =
     (case get_original_entity (rule_records w) (Some predecessor) (Some predecessor) of
        None \<Rightarrow> None
      | Some (Inl e) \<Rightarrow> Some (Some e, w)
      | Some (Inr pred_original) \<Rightarrow>
          (if preds_to_remove w predecessor = None
           then (case pred_original of
                   None \<Rightarrow> Some (Some TypeError, w)
                 | Some po \<Rightarrow>
                     Some (None, w\<lparr>preds_to_remove := (preds_to_remove w)(po \<mapsto> [node])\<rparr>))
           else (case pred_original of
                   None \<Rightarrow> Some (Some TypeError, w)
                 | Some po \<Rightarrow>
                     (case preds_to_remove w po of
                        None \<Rightarrow> Some (Some KeyError, w)
                      | Some accounted \<Rightarrow>
                          Some (None, w\<lparr>preds_to_remove :=
                                 (preds_to_remove w)(po \<mapsto> List.insert node accounted)\<rparr>)))))"

text \<open>
  \<open>[records.get_optimization_result(x, x) for x in xs]\<close>: each entity resolved with
  itself as the fallback (lines 238-240 and 367-370).
\<close>

fun resolve_each ::
  "'n OptimizationRecords \<Rightarrow> 'n option list \<Rightarrow> (error + 'n option list) option" where
  "resolve_each s [] = Some (Inr [])"
| "resolve_each s (x # xs) =
     (case get_optimization_result s x x of
        None \<Rightarrow> None
      | Some (Inl e) \<Rightarrow> Some (Inl e)
      | Some (Inr y) \<Rightarrow>
          (case resolve_each s xs of
             None \<Rightarrow> None
           | Some (Inl e) \<Rightarrow> Some (Inl e)
           | Some (Inr ys) \<Rightarrow> Some (Inr (y # ys))))"

text \<open>
  The first loop of \<open>_remove_collapsable_predecessors\<close> (lines 231-242): the pairs
  \<open>(pred_original, pred_opt)\<close> of the predecessors to remove. \<open>.get(pred_original)\<close> on
  the \<open>WeakKeyDictionary\<close> raises \<open>TypeError\<close> for the key \<open>None\<close>.
\<close>

fun collapsable_pairs ::
  "('n, 'k, 'v) rule_state \<Rightarrow> 'n list \<Rightarrow> (error + ('n option \<times> 'n option) list) option" where
  "collapsable_pairs w [] = Some (Inr [])"
| "collapsable_pairs w (pred # preds) =
     (case get_original_entity (rule_records w) (Some pred) (Some pred) of
        None \<Rightarrow> None
      | Some (Inl e) \<Rightarrow> Some (Inl e)
      | Some (Inr pred_original) \<Rightarrow>
          (case get_optimization_result (rule_records w) (Some pred) (Some pred) of
             None \<Rightarrow> None
           | Some (Inl e) \<Rightarrow> Some (Inl e)
           | Some (Inr pred_opt) \<Rightarrow>
               (if pred_opt \<in> set (results (rule_graph w)) \<or>
                   pred_original \<in> set (results (rule_graph w))
                then collapsable_pairs w preds
                else
                  (case pred_original of
                     None \<Rightarrow> Some (Inl TypeError)
                   | Some po \<Rightarrow>
                       (let affect_succ = (case preds_to_remove w po of
                                             None \<Rightarrow> [] | Some accounted \<Rightarrow> accounted) in
                        case resolve_each (rule_records w) (map Some affect_succ) of
                          None \<Rightarrow> None
                        | Some (Inl e) \<Rightarrow> Some (Inl e)
                        | Some (Inr affect_succ_opt) \<Rightarrow>
                            (if \<forall>s \<in> set (successors (rule_graph w) pred).
                                  Some s \<in> set affect_succ_opt
                             then (case collapsable_pairs w preds of
                                     None \<Rightarrow> None
                                   | Some (Inl e) \<Rightarrow> Some (Inl e)
                                   | Some (Inr ps) \<Rightarrow>
                                       Some (Inr ((pred_original, pred_opt) # ps)))
                             else collapsable_pairs w preds))))))"

text \<open>
  The second loop (lines 244-248): remove \<open>pred_opt\<close> from the graph and append a
  \<open>delete\<close> record for \<open>pred_original\<close>. \<open>None\<close> is no node of the graph, and removing
  it leaves the graph of the model as it is.
\<close>

fun remove_pairs ::
  "('n option \<times> 'n option) list \<Rightarrow> ('n, 'k, 'v) rule_state \<Rightarrow> ('n, 'k, 'v) rule_state" where
  "remove_pairs [] w = w"
| "remove_pairs ((pred_original, pred_opt) # ps) w =
     remove_pairs ps
       (w\<lparr>rule_graph := (case pred_opt of
                           None \<Rightarrow> rule_graph w
                         | Some p \<Rightarrow> remove_node (rule_graph w) p),
          rule_records := append_record (rule_records w)
             \<lparr>original_entity = pred_original, new_entity = None, record_type = delete\<rparr>\<rparr>)"

text \<open>
  \<open>_remove_collapsable_predecessors\<close> (lines 228-248). \<open>x or node\<close> takes \<open>node\<close> when
  \<open>x\<close> is \<open>None\<close>; an entity counts as true.
\<close>

definition remove_collapsable_predecessors ::
  "('n, 'k, 'v) rule_state \<Rightarrow> 'n \<Rightarrow> (error option \<times> ('n, 'k, 'v) rule_state) option" where
  "remove_collapsable_predecessors w node0 =
     (case get_optimization_result (rule_records w) (Some node0) None of
        None \<Rightarrow> None
      | Some (Inl e) \<Rightarrow> Some (Some e, w)
      | Some (Inr r) \<Rightarrow>
          (let node = (case r of None \<Rightarrow> node0 | Some n \<Rightarrow> n) in
           case collapsable_pairs w (predecessors (rule_graph w) node) of
             None \<Rightarrow> None
           | Some (Inl e) \<Rightarrow> Some (Some e, w)
           | Some (Inr preds_opt_to_remove) \<Rightarrow>
               Some (None, remove_pairs preds_opt_to_remove w)))"

section \<open>Extraction of eval expressions (arithmetic_query.py)\<close>

text \<open>
  The values that \<open>_extract_eval_expression\<close> tells apart (lines 185-194):
  \<open>Literal r\<close> is a scalar that is an \<open>int\<close>, \<open>bool\<close>, \<open>str\<close>, \<open>bytes\<close>, \<open>np.integer\<close> or
  \<open>np.bool_\<close>, with \<open>r\<close> its \<open>repr\<close>; \<open>Scalar x\<close> is any other scalar; \<open>Entity n\<close> is
  an instance of \<open>ENTITY_TYPE\<close>; \<open>Other\<close> is anything else.
\<close>

datatype ('n, 'v) py_value = Literal string | Scalar 'v | Entity 'n | Other

text \<open>
  What lines 199-209 and the two extraction methods read of \<open>tileable.op\<close>. The classes
  of operands and \<open>_is_select_dataframe_column\<close> rest on code that is not among the
  source files, so the operand of each entity is given to the model in this form:
  \<^item> \<open>ColumnSelect c\<close>: \<open>_is_select_dataframe_column(tileable)\<close> holds, and \<open>c\<close> is
    \<open>op.col_names\<close> as the f-string of line 216 prints it;
  \<^item> \<open>UnaryUfunc f ins\<close>: a \<open>DataFrameUnaryUfunc\<close> with \<open>f\<close> the value of \<open>func_name\<close>
    in line 220 and \<open>ins\<close> the list \<open>op.inputs\<close>;
  \<^item> \<open>BinopUfunc g f lhs rhs\<close>: a \<open>DataFrameBinopUfunc\<close> with \<open>g\<close> the truth of
    \<open>op.fill_value is not None or op.level is not None\<close>, \<open>f\<close> the value of \<open>func_name\<close>
    in line 235, and \<open>op.lhs\<close>, \<open>op.rhs\<close>;
  \<^item> \<open>OtherOp\<close>: any other operand.
\<close>

datatype ('n, 'v) eval_op =
    ColumnSelect string
  | UnaryUfunc string "'n list"
  | BinopUfunc bool string "('n, 'v) py_value" "('n, 'v) py_value"
  | OtherOp

text \<open>
  \<open>_func_name_to_builder\<close> (lines 49-67): \<open>Binop s\<close> is \<open>_get_binop_builder(s)\<close>, a
  function of two strings; \<open>Negative\<close> and \<open>Invert\<close> are the two functions of one
  string.
\<close>

datatype builder = Binop string | Negative | Invert

definition func_name_to_builder :: "string \<rightharpoonup> builder" where
  "func_name_to_builder =
     map_of
       [(''add'', Binop ''+''), (''sub'', Binop ''-''), (''mul'', Binop ''*''),
        (''floordiv'', Binop ''//''), (''truediv'', Binop ''/''), (''pow'', Binop ''**''),
        (''eq'', Binop ''==''), (''ne'', Binop ''!=''), (''lt'', Binop ''<''),
        (''le'', Binop ''<=''), (''gt'', Binop ''>''), (''ge'', Binop ''>=''),
        (''__and__'', Binop ''&''), (''__or__'', Binop ''|''), (''__xor__'', Binop ''^''),
        (''negative'', Negative), (''__invert__'', Invert)]"

text \<open>An f-string prints \<open>None\<close> as the word \<open>None\<close>.\<close>

definition fmt :: "string option \<Rightarrow> string" where
  "fmt x = (case x of None \<Rightarrow> ''None'' | Some s \<Rightarrow> s)"

text \<open>A natural number in decimal, as an f-string prints an \<open>int\<close>.\<close>

definition digit :: "nat \<Rightarrow> char" where
  "digit n = (''0123456789'' ! n)"

fun str_nat :: "nat \<Rightarrow> string" where
  "str_nat n = (if n < 10 then [digit n] else str_nat (n div 10) @ [digit (n mod 10)])"

text \<open>\<open>d[k] = v\<close> and \<open>d.update(other)\<close> on a dictionary kept as a list of pairs.\<close>

fun dict_set :: "'a \<Rightarrow> 'b \<Rightarrow> ('a \<times> 'b) list \<Rightarrow> ('a \<times> 'b) list" where
  "dict_set k v [] = [(k, v)]"
| "dict_set k v ((k', v') # kvs) =
     (if k' = k then (k, v) # kvs else (k', v') # dict_set k v kvs)"

definition dict_update :: "('a \<times> 'b) list \<Rightarrow> ('a \<times> 'b) list \<Rightarrow> ('a \<times> 'b) list" where
  "dict_update d other = fold (\<lambda>(k, v). dict_set k v) other d"

text \<open>\<open>EvalExtractRecord()\<close>, with every field \<open>None\<close>.\<close>

definition no_record :: "('n, 'v) EvalExtractRecord" where
  "no_record = \<lparr>tileable = None, expr = None, variables = None\<rparr>"

text \<open>\<open>SeriesArithmeticToEval._next_var_id\<close> (lines 147-150).\<close>

definition next_var_id :: "('n, 'k, 'v) rule_state \<Rightarrow> nat \<times> ('n, 'k, 'v) rule_state" where
  "next_var_id w = (var_counter w + 1, w\<lparr>var_counter := var_counter w + 1\<rparr>)"

text \<open>
  \<open>_EvalRewriteOptimizationRule._mark_node\<close> (lines 81-82). \<open>_marked_nodes\<close> is an
  attribute of the rule instance (line 79), a set, here a list without duplicates of
  what \<open>get_optimization_result\<close> returned.
\<close>

definition mark_node ::
  "'n option list \<Rightarrow> ('n, 'k, 'v) rule_state \<Rightarrow> 'n \<Rightarrow> (error option \<times> 'n option list) option" where
  "mark_node marked_nodes w node =
     (case get_optimization_result (rule_records w) (Some node) (Some node) of
        None \<Rightarrow> None
      | Some (Inl e) \<Rightarrow> Some (Some e, marked_nodes)
      | Some (Inr r) \<Rightarrow> Some (None, List.insert r marked_nodes))"

text \<open>
  \<open>_mark_node(op.lhs)\<close> and \<open>_mark_node(op.rhs)\<close> (lines 241 and 244) are reached only
  when the record extracted from the value has a \<open>tileable\<close>, and then the value is an
  entity (lemma \<open>extract_tileable_entity\<close> below); for the other values nothing is
  marked.
\<close>

definition mark_value ::
  "'n option list \<Rightarrow> ('n, 'k, 'v) rule_state \<Rightarrow> ('n, 'v) py_value
     \<Rightarrow> (error option \<times> 'n option list) option" where
  "mark_value marked_nodes w v =
     (case v of Entity n \<Rightarrow> mark_node marked_nodes w n | _ \<Rightarrow> Some (None, marked_nodes))"

text \<open>
  \<open>_extract_unary\<close> (lines 218-231). \<open>self_extract\<close> stands for
  \<open>self._extract_eval_expression\<close>. \<open>op.inputs[0]\<close> raises \<open>IndexError\<close> on an empty
  list, and a builder of two strings called with one raises \<open>TypeError\<close>.
\<close>

definition extract_unary ::
  "('n option list \<Rightarrow> ('n, 'k, 'v) rule_state \<Rightarrow> ('n, 'v) py_value
      \<Rightarrow> ((error + ('n, 'v) EvalExtractRecord) \<times> 'n option list \<times> ('n, 'k, 'v) rule_state) option)
   \<Rightarrow> 'n option list \<Rightarrow> ('n, 'k, 'v) rule_state \<Rightarrow> string \<Rightarrow> 'n list
   \<Rightarrow> ((error + ('n, 'v) EvalExtractRecord) \<times> 'n option list \<times> ('n, 'k, 'v) rule_state) option" where
  "extract_unary self_extract p w func_name op_inputs =
     (case func_name_to_builder func_name of
        None \<Rightarrow> Some (Inr no_record, p, w)
      | Some b \<Rightarrow>
          (case op_inputs of
             [] \<Rightarrow> Some (Inl IndexError, p, w)
           | inp # _ \<Rightarrow>
               (case self_extract p w (Entity inp) of
                  None \<Rightarrow> None
                | Some (Inl e, p1, w1) \<Rightarrow> Some (Inl e, p1, w1)
                | Some (Inr r, p1, w1) \<Rightarrow>
                    (case tileable r of
                       None \<Rightarrow> Some (Inr no_record, p1, w1)
                     | Some in_tileable \<Rightarrow>
                         (case mark_node p1 w1 inp of
                            None \<Rightarrow> None
                          | Some (Some e, p2) \<Rightarrow> Some (Inl e, p2, w1)
                          | Some (None, p2) \<Rightarrow>
                              (case b of
                                 Negative \<Rightarrow>
                                   Some (Inr \<lparr>tileable = Some in_tileable,
                                              expr = Some (''-('' @ fmt (expr r) @ '')''),
                                              variables = variables r\<rparr>, p2, w1)
                               | Invert \<Rightarrow>
                                   Some (Inr \<lparr>tileable = Some in_tileable,
                                              expr = Some (''~('' @ fmt (expr r) @ '')''),
                                              variables = variables r\<rparr>, p2, w1)
                               | Binop op_str \<Rightarrow> Some (Inl TypeError, p2, w1)))))))"

text \<open>
  \<open>_extract_binary\<close> (lines 233-260). \<open>next\<close> on a generator with no element raises
  \<open>StopIteration\<close>, and a builder of one string called with two raises \<open>TypeError\<close>.
\<close>

definition extract_binary ::
  "('n option list \<Rightarrow> ('n, 'k, 'v) rule_state \<Rightarrow> ('n, 'v) py_value
      \<Rightarrow> ((error + ('n, 'v) EvalExtractRecord) \<times> 'n option list \<times> ('n, 'k, 'v) rule_state) option)
   \<Rightarrow> 'n option list \<Rightarrow> ('n, 'k, 'v) rule_state \<Rightarrow> string
   \<Rightarrow> ('n, 'v) py_value \<Rightarrow> ('n, 'v) py_value
   \<Rightarrow> ((error + ('n, 'v) EvalExtractRecord) \<times> 'n option list \<times> ('n, 'k, 'v) rule_state) option" where
  "extract_binary self_extract p w func_name lhs rhs =
     (case func_name_to_builder func_name of
        None \<Rightarrow> Some (Inr no_record, p, w)
      | Some b \<Rightarrow>
          (case self_extract p w lhs of
             None \<Rightarrow> None
           | Some (Inl e, p1, w1) \<Rightarrow> Some (Inl e, p1, w1)
           | Some (Inr l, p1, w1) \<Rightarrow>
               (case (if tileable l \<noteq> None then mark_value p1 w1 lhs else Some (None, p1)) of
                  None \<Rightarrow> None
                | Some (Some e, p2) \<Rightarrow> Some (Inl e, p2, w1)
                | Some (None, p2) \<Rightarrow>
                    (case self_extract p2 w1 rhs of
                       None \<Rightarrow> None
                     | Some (Inl e, p3, w3) \<Rightarrow> Some (Inl e, p3, w3)
                     | Some (Inr r, p3, w3) \<Rightarrow>
                         (case (if tileable r \<noteq> None then mark_value p3 w3 rhs
                                else Some (None, p3)) of
                            None \<Rightarrow> None
                          | Some (Some e, p4) \<Rightarrow> Some (Inl e, p4, w3)
                          | Some (None, p4) \<Rightarrow>
                              (case (expr l, expr r) of
                                 (Some lhs_expr, Some rhs_expr) \<Rightarrow>
                                   (if (case (tileable l, tileable r) of
                                          (Some lt, Some rt) \<Rightarrow>
                                            key (rule_entities w3) lt \<noteq> key (rule_entities w3) rt
                                        | _ \<Rightarrow> False)
                                    then Some (Inr no_record, p4, w3)
                                    else
                                      (let vars = dict_update
                                             (case variables l of None \<Rightarrow> [] | Some d \<Rightarrow> d)
                                             (case variables r of None \<Rightarrow> [] | Some d \<Rightarrow> d) in
                                       case (case tileable l of
                                               Some lt \<Rightarrow> Some lt
                                             | None \<Rightarrow> tileable r) of
                                         None \<Rightarrow> Some (Inl StopIteration, p4, w3)
                                       | Some in_tileable \<Rightarrow>
                                           (case b of
                                              Binop op_str \<Rightarrow>
                                                Some (Inr \<lparr>tileable = Some in_tileable,
                                                           expr = Some (''('' @ lhs_expr @ '') ''
                                                                   @ op_str @ '' ('' @ rhs_expr
                                                                   @ '')''),
                                                           variables = Some vars\<rparr>, p4, w3)
                                            | _ \<Rightarrow> Some (Inl TypeError, p4, w3))))
                               | _ \<Rightarrow> Some (Inr no_record, p4, w3)))))))"

text \<open>
  \<open>_extract_eval_expression\<close> (lines 184-212) with \<open>_extract_column_select\<close> (lines
  215-216) in its place. The first argument bounds the depth of the calls of
  \<open>_extract_eval_expression\<close> within one another, as the recursion limit of the
  interpreter does; beyond it the call raises \<open>RecursionError\<close>. \<open>ops\<close> gives the
  operand of each entity, \<open>p\<close> is \<open>_marked_nodes\<close>, and \<open>w\<close> holds the cache and the
  counter. A result is stored in the cache only when the call returns.
\<close>

fun extract_eval_expression ::
  "nat \<Rightarrow> ('n \<Rightarrow> ('n, 'v) eval_op) \<Rightarrow> 'n option list \<Rightarrow> ('n, 'k, 'v) rule_state
     \<Rightarrow> ('n, 'v) py_value
     \<Rightarrow> ((error + ('n, 'v) EvalExtractRecord) \<times> 'n option list \<times> ('n, 'k, 'v) rule_state) option" where
  "extract_eval_expression 0 ops p w v = Some (Inl RecursionError, p, w)"
| "extract_eval_expression (Suc depth) ops p w v =
     (case v of
        Literal r \<Rightarrow> Some (Inr \<lparr>tileable = None, expr = Some r, variables = None\<rparr>, p, w)
      | Scalar x \<Rightarrow>
          (let (i, w1) = next_var_id w;
               var_name = ''__eval_scalar_var'' @ str_nat i in
           Some (Inr \<lparr>tileable = None, expr = Some (''@'' @ var_name),
                      variables = Some [(var_name, x)]\<rparr>, p, w1))
      | Other \<Rightarrow> Some (Inr no_record, p, w)
      | Entity n \<Rightarrow>
          (case extract_result_cache w n of
             Some cached \<Rightarrow> Some (Inr cached, p, w)
           | None \<Rightarrow>
               (case (case ops n of
                        ColumnSelect col_names \<Rightarrow>
                          (case inputs (rule_entities w) n of
                             [] \<Rightarrow> Some (Inl IndexError, p, w)
                           | input_df # _ \<Rightarrow>
                               Some (Inr \<lparr>tileable = Some input_df,
                                          expr = Some (''`'' @ col_names @ ''`''),
                                          variables = None\<rparr>, p, w))
                      | UnaryUfunc func_name op_inputs \<Rightarrow>
                          extract_unary (\<lambda>p' w' v'. extract_eval_expression depth ops p' w' v')
                            p w func_name op_inputs
                      | BinopUfunc filled func_name lhs rhs \<Rightarrow>
                          (if filled then Some (Inr no_record, p, w)
                           else extract_binary
                                  (\<lambda>p' w' v'. extract_eval_expression depth ops p' w' v')
                                  p w func_name lhs rhs)
                      | OtherOp \<Rightarrow> Some (Inr no_record, p, w)) of
                  None \<Rightarrow> None
                | Some (Inl e, p1, w1) \<Rightarrow> Some (Inl e, p1, w1)
                | Some (Inr result, p1, w1) \<Rightarrow>
                    Some (Inr result, p1,
                          w1\<lparr>extract_result_cache := (extract_result_cache w1)(n \<mapsto> result)\<rparr>))))"

section \<open>\<open>OperandBasedOptimizationRule.apply\<close>\<close>

text \<open>
  A rule over a state \<open>'w\<close> that holds the graph, the records and whatever the rule
  keeps for itself. \<open>match_operand\<close> and \<open>apply_to_operand\<close> are abstract in the source;
  here they are given by the rule, may change the state, may raise, and may not
  return. \<open>topological_iter\<close> belongs to the graph class, which is not among the source
  files, and is given with the rule as well. \<open>entity_op\<close> reads \<open>entity.op\<close>, and
  \<open>op_types\<close> decides \<open>isinstance(op, tuple(op_types))\<close> for the operand types
  registered for the rule.
\<close>

record ('w, 'n, 'op) operand_rule =
  graph_of :: "'w \<Rightarrow> 'n EntityGraph"
  topological_iter :: "'n EntityGraph \<Rightarrow> 'n list"
  entity_op :: "'n \<Rightarrow> 'op"
  op_types :: "'op \<Rightarrow> bool"
  match_operand :: "'op \<Rightarrow> 'w \<Rightarrow> ((error + bool) \<times> 'w) option"
  apply_to_operand :: "'op \<Rightarrow> 'w \<Rightarrow> (error option \<times> 'w) option"

text \<open>
  The calls that \<open>apply\<close> makes, in order: \<open>Matched op b\<close> for a call of
  \<open>match_operand(op)\<close> that returned \<open>b\<close> or raised (then \<open>b\<close> is \<open>False\<close>), and
  \<open>Applied op\<close> for a call of \<open>apply_to_operand(op)\<close>. The list is not a variable of
  the source: the loop below records in it each call it makes, so that the number of
  calls can be stated.
\<close>

datatype 'op event = Matched 'op bool | Applied 'op

fun match_calls :: "'op event list \<Rightarrow> 'op list" where
  "match_calls [] = []"
| "match_calls (Matched op b # es) = op # match_calls es"
| "match_calls (Applied op # es) = match_calls es"

fun apply_calls :: "'op event list \<Rightarrow> 'op list" where
  "apply_calls [] = []"
| "apply_calls (Matched op b # es) = apply_calls es"
| "apply_calls (Applied op # es) = op # apply_calls es"

text \<open>
  The loop of \<open>apply\<close> (lines 264-276) over the entities that \<open>topological_iter\<close> listed
  before the loop began, with the variables \<open>visited\<close> and \<open>optimized\<close>.
\<close>

fun apply_loop ::
  "('w, 'n, 'op) operand_rule \<Rightarrow> 'n list \<Rightarrow> 'op list \<Rightarrow> bool \<Rightarrow> 'op event list \<Rightarrow> 'w
     \<Rightarrow> ('op event list \<times> (error + bool) \<times> 'w) option" where
  "apply_loop R [] visited optimized calls w = Some (calls, Inr optimized, w)"
| "apply_loop R (entity # entities) visited optimized calls w =
     (let op = entity_op R entity in
      if op \<in> set visited then apply_loop R entities visited optimized calls w
      else
        (let visited' = op # visited in
         if \<not> contains (graph_of R w) entity
         then apply_loop R entities visited' optimized calls w
         else if \<not> op_types R op
         then apply_loop R entities visited' optimized calls w
         else
           (case match_operand R op w of
              None \<Rightarrow> None
            | Some (Inl e, w1) \<Rightarrow> Some (calls @ [Matched op False], Inl e, w1)
            | Some (Inr False, w1) \<Rightarrow>
                apply_loop R entities visited' optimized (calls @ [Matched op False]) w1
            | Some (Inr True, w1) \<Rightarrow>
                (case apply_to_operand R op w1 of
                   None \<Rightarrow> None
                 | Some (Some e, w2) \<Rightarrow>
                     Some (calls @ [Matched op True, Applied op], Inl e, w2)
                 | Some (None, w2) \<Rightarrow>
                     apply_loop R entities visited' True
                       (calls @ [Matched op True, Applied op]) w2))))"

text \<open>\<open>apply\<close> (lines 261-278).\<close>

definition apply_rule ::
  "('w, 'n, 'op) operand_rule \<Rightarrow> 'w \<Rightarrow> ('op event list \<times> (error + bool) \<times> 'w) option" where
  "apply_rule R w = apply_loop R (topological_iter R (graph_of R w)) [] False [] w"

text \<open>
  What holds of the variables of the loop before each iteration: every operand that
  was matched or applied is in \<open>visited\<close>, none was matched or applied twice, and
  \<open>optimized\<close> tells whether some call of \<open>match_operand\<close> returned true.
\<close>

definition loop_inv :: "'op list \<Rightarrow> bool \<Rightarrow> 'op event list \<Rightarrow> bool" where
  "loop_inv visited optimized calls \<longleftrightarrow>
     set (match_calls calls) \<subseteq> set visited \<and> distinct (match_calls calls) \<and>
     set (apply_calls calls) \<subseteq> set visited \<and> distinct (apply_calls calls) \<and>
     (optimized \<longleftrightarrow> (\<exists>op. Matched op True \<in> set calls))"

section \<open>\<open>Optimizer\<close>\<close>

text \<open>
  The loop \<open>for inp in succ.inputs\<close> of \<open>_replace_inputs\<close> (lines 331-337) with its
  variables \<open>input_optimized\<close> and \<open>new_inputs\<close>. The fallback of the lookup is \<open>None\<close>,
  and a lookup that yields \<open>None\<close> keeps the input.
\<close>

fun inputs_loop ::
  "'n OptimizationRecords \<Rightarrow> 'n list \<Rightarrow> bool \<Rightarrow> 'n list \<Rightarrow> (error + bool \<times> 'n list) option" where
  "inputs_loop s [] input_optimized new_inputs = Some (Inr (input_optimized, new_inputs))"
| "inputs_loop s (inp # inps) input_optimized new_inputs =
     (case get_optimization_result s (Some inp) None of
        None \<Rightarrow> None
      | Some (Inl e) \<Rightarrow> Some (Inl e)
      | Some (Inr r) \<Rightarrow>
          (let optimized = (case r of None \<Rightarrow> inp | Some x \<Rightarrow> x) in
           inputs_loop s inps (input_optimized \<or> optimized \<noteq> inp) (new_inputs @ [optimized])))"

text \<open>
  The body of \<open>_replace_inputs\<close> for the successors met, in the order of the two outer
  loops; \<open>succ.inputs = new_inputs\<close> updates the attribute table.
\<close>

fun replace_inputs_loop ::
  "'n OptimizationRecords \<Rightarrow> 'n list \<Rightarrow> ('n, 'k) entities
     \<Rightarrow> (error option \<times> ('n, 'k) entities) option" where
  "replace_inputs_loop s [] E = Some (None, E)"
| "replace_inputs_loop s (succ # succs) E =
     (case inputs_loop s (inputs E succ) False [] of
        None \<Rightarrow> None
      | Some (Inl e) \<Rightarrow> Some (Some e, E)
      | Some (Inr (input_optimized, new_inputs)) \<Rightarrow>
          replace_inputs_loop s succs
            (if input_optimized then E\<lparr>inputs := (inputs E)(succ := new_inputs)\<rparr> else E))"

text \<open>
  The successors that \<open>for node in graph: for succ in graph.successors(node)\<close> meets,
  in order. The loops do not change the graph.
\<close>

definition consumers :: "'n EntityGraph \<Rightarrow> 'n list" where
  "consumers g = concat (map (successors g) (iter_nodes g))"

text \<open>\<open>Optimizer._replace_inputs\<close> (lines 326-339).\<close>

definition replace_inputs ::
  "'n EntityGraph \<Rightarrow> 'n OptimizationRecords \<Rightarrow> ('n, 'k) entities
     \<Rightarrow> (error option \<times> ('n, 'k) entities) option" where
  "replace_inputs g s E = replace_inputs_loop s (consumers g) E"

text \<open>
  Lines 365-371 of \<open>optimize\<close>, run after a rule whose \<open>apply\<close> returned true: replace
  the inputs, then resolve each result with itself as the fallback.
\<close>

definition repair ::
  "('n, 'k, 'v) rule_state \<Rightarrow> (error option \<times> ('n, 'k, 'v) rule_state) option" where
  "repair w =
     (case replace_inputs (rule_graph w) (rule_records w) (rule_entities w) of
        None \<Rightarrow> None
      | Some (Some e, E') \<Rightarrow> Some (Some e, w\<lparr>rule_entities := E'\<rparr>)
      | Some (None, E') \<Rightarrow>
          (case resolve_each (rule_records w) (results (rule_graph w)) of
             None \<Rightarrow> None
           | Some (Inl e) \<Rightarrow> Some (Some e, w\<lparr>rule_entities := E'\<rparr>)
           | Some (Inr new_results) \<Rightarrow>
               Some (None, w\<lparr>rule_entities := E',
                              rule_graph := (rule_graph w)\<lparr>results := new_results\<rparr>\<rparr>)))"

text \<open>
  A rule type, as \<open>optimize\<close> uses it: \<open>new_rule\<close> is the state of a fresh instance, as
  \<open>__init__\<close> makes it, and \<open>rule_apply\<close> is \<open>apply\<close>, which may change the instance and
  the state shared by all rules, may raise, and may not return.
\<close>

record ('w, 'p) rule_class =
  new_rule :: "'p"
  rule_apply :: "'p \<Rightarrow> 'w \<Rightarrow> ((error + bool) \<times> 'p \<times> 'w) option"

text \<open>
  \<open>cached_rule(rule_type)\<close> (lines 358-363): the instance made at the first use of a
  rule type in this call of \<open>optimize\<close>, as it is now.
\<close>

definition cached_rule :: "('rt \<Rightarrow> ('w, 'p) rule_class) \<Rightarrow> ('rt \<rightharpoonup> 'p) \<Rightarrow> 'rt \<Rightarrow> 'p" where
  "cached_rule impl cached rule_type =
     (case cached rule_type of None \<Rightarrow> new_rule (impl rule_type) | Some p \<Rightarrow> p)"

text \<open>The loop of \<open>optimize\<close> (lines 362-371) over the registered rule types.\<close>

fun optimize_rules ::
  "('rt \<Rightarrow> (('n, 'k, 'v) rule_state, 'p) rule_class) \<Rightarrow> 'rt list \<Rightarrow> ('rt \<rightharpoonup> 'p)
     \<Rightarrow> ('n, 'k, 'v) rule_state \<Rightarrow> (error option \<times> ('n, 'k, 'v) rule_state) option" where
  "optimize_rules impl [] cached w = Some (None, w)"
| "optimize_rules impl (rule_type # rule_types) cached w =
     (case rule_apply (impl rule_type) (cached_rule impl cached rule_type) w of
        None \<Rightarrow> None
      | Some (Inl e, p', w1) \<Rightarrow> Some (Some e, w1)
      | Some (Inr changed, p', w1) \<Rightarrow>
          (if changed
           then (case repair w1 of
                   None \<Rightarrow> None
                 | Some (Some e, w2) \<Rightarrow> Some (Some e, w2)
                 | Some (None, w2) \<Rightarrow>
                     optimize_rules impl rule_types (cached(rule_type \<mapsto> p')) w2)
           else optimize_rules impl rule_types (cached(rule_type \<mapsto> p')) w1))"

text \<open>
  \<open>Optimizer.optimize\<close> (lines 343-373). The records and the cache of rule instances
  are made anew; the graph, the entities and the class attribute \<open>_preds_to_remove\<close>
  are those of the caller. \<open>_rule_types\<close> exists only once a rule is registered
  (lines 321-322), and reading it before that raises \<open>AttributeError\<close>. The state
  returned holds the records that \<open>optimize\<close> returns and the graph as it leaves it.
\<close>

definition optimize ::
  "('rt \<Rightarrow> (('n, 'k, 'v) rule_state, 'p) rule_class) \<Rightarrow> 'rt list option \<Rightarrow> ('n, 'k, 'v) rule_state
     \<Rightarrow> (error option \<times> ('n, 'k, 'v) rule_state) option" where
  "optimize impl rule_types w =
     (let w0 = w\<lparr>rule_records := init_records\<rparr> in
      case rule_types of
        None \<Rightarrow> Some (Some AttributeError, w0)
      | Some rts \<Rightarrow> optimize_rules impl rts Map.empty w0)"

text \<open>
  What \<open>_replace_inputs\<close> puts in the place of an input: the entity that the records
  resolve it to, or the input itself when the lookup yields \<open>None\<close>, raises or does not
  return.
\<close>

definition resolved_input :: "'n OptimizationRecords \<Rightarrow> 'n \<Rightarrow> 'n" where
  "resolved_input s inp =
     (case get_optimization_result s (Some inp) None of
        Some (Inr (Some x)) \<Rightarrow> x
      | _ \<Rightarrow> inp)"

text \<open>
  The part of the state that one call of \<open>optimize\<close> is about: the graph it is given,
  the attributes of the entities, and the records it makes. The rest of the state,
  \<open>_preds_to_remove\<close>, \<open>_extract_result_cache\<close> and \<open>_var_counter\<close>, belongs to classes
  and to a module.
\<close>

definition call_state ::
  "('n, 'k, 'v) rule_state \<Rightarrow> 'n EntityGraph \<times> ('n, 'k) entities \<times> 'n OptimizationRecords" where
  "call_state w = (rule_graph w, rule_entities w, rule_records w)"

text \<open>
  The outcome of a call of \<open>optimize\<close>: whether it returns, the error raised if any,
  and the graph, the entities and the records as the call leaves them.
\<close>

definition outcome ::
  "(error option \<times> ('n, 'k, 'v) rule_state) option
     \<Rightarrow> (error option \<times> 'n EntityGraph \<times> ('n, 'k) entities \<times> 'n OptimizationRecords) option" where
  "outcome r = map_option (\<lambda>(e, w). (e, call_state w)) r"

text \<open>
  The \<open>apply\<close> of a rule type does not depend on the state of classes and modules:
  from two states with equal graph, entities and records, and the same instance, it
  behaves alike and leaves equal graph, entities and records and the same instance.
\<close>

definition ignores_shared :: "(('n, 'k, 'v) rule_state, 'p) rule_class \<Rightarrow> bool" where
  "ignores_shared R \<longleftrightarrow>
     (\<forall>p w w'. call_state w = call_state w' \<longrightarrow>
        map_option (\<lambda>(r, p', w1). (r, p', call_state w1)) (rule_apply R p w) =
        map_option (\<lambda>(r, p', w1). (r, p', call_state w1)) (rule_apply R p w'))"

section \<open>Examples\<close>

definition r12 :: "nat OptimizationRecord" where
  "r12 = \<lparr>original_entity = Some 1, new_entity = Some 2, record_type = replace\<rparr>"

definition r23 :: "nat OptimizationRecord" where
  "r23 = \<lparr>original_entity = Some 2, new_entity = Some 3, record_type = replace\<rparr>"

definition d2 :: "nat OptimizationRecord" where
  "d2 = \<lparr>original_entity = Some 2, new_entity = None, record_type = delete\<rparr>"

text \<open>Entities whose key is their identity and whose only output is themselves.\<close>

definition plain :: "(nat \<Rightarrow> nat list) \<Rightarrow> (nat, nat) entities" where
  "plain ins = \<lparr>key = (\<lambda>n. n), inputs = ins, outputs = (\<lambda>n. [n])\<rparr>"

definition store_12_d2 :: "nat OptimizationRecords" where
  "store_12_d2 = append_record (append_record init_records r12) d2"

definition store_12_23 :: "nat OptimizationRecords" where
  "store_12_23 = append_record (append_record init_records r12) r23"

text \<open>
  The records 1 to 2, then 9 to 2, then 2 to 3; and the records 1 to 2, then 5 to 6,
  then 2 to 3, then 7 to 8.
\<close>

definition r92 :: "nat OptimizationRecord" where
  "r92 = \<lparr>original_entity = Some 9, new_entity = Some 2, record_type = replace\<rparr>"

definition r56 :: "nat OptimizationRecord" where
  "r56 = \<lparr>original_entity = Some 5, new_entity = Some 6, record_type = replace\<rparr>"

definition r78 :: "nat OptimizationRecord" where
  "r78 = \<lparr>original_entity = Some 7, new_entity = Some 8, record_type = replace\<rparr>"

definition store_12_92_23 :: "nat OptimizationRecords" where
  "store_12_92_23 = append_records init_records [r12, r92, r23]"

definition store_12_56_23_78 :: "nat OptimizationRecords" where
  "store_12_56_23_78 = append_records init_records [r12, r56, r23, r78]"

text \<open>
  Node 1 feeds node 4, which is a result. Node 2 is to replace node 1: it carries the
  key of node 1 and reads an entity 3 that no node produces.
\<close>

definition ents_dangling :: "(nat, nat) entities" where
  "ents_dangling =
     \<lparr>key = (\<lambda>n. if n = 2 then 1 else n),
      inputs = (\<lambda>n. if n = 4 then [1] else if n = 2 then [3] else []),
      outputs = (\<lambda>n. [n])\<rparr>"

definition graph_1_4 :: "nat EntityGraph" where
  "graph_1_4 = \<lparr>nodes = [1, 4], edges = [(1, 4)], results = [Some 4]\<rparr>"

definition graph_only_2 :: "nat EntityGraph" where
  "graph_only_2 = \<lparr>nodes = [2], edges = [], results = []\<rparr>"

text \<open>Node 1 feeds node 2, and node 2 is the only result.\<close>

definition graph_1_2 :: "nat EntityGraph" where
  "graph_1_2 = \<lparr>nodes = [1, 2], edges = [(1, 2)], results = [Some 2]\<rparr>"

text \<open>
  A rule state with no graph nodes, no records and an empty \<open>_preds_to_remove\<close>, and the
  sequence: account for successor 5 of predecessor 1, record that 1 is replaced by 2,
  account for successor 6 of predecessor 2.
\<close>

definition blank_state :: "(nat, nat, nat) rule_state" where
  "blank_state =
     \<lparr>rule_graph = \<lparr>nodes = [], edges = [], results = []\<rparr>,
      rule_entities = plain (\<lambda>n. []),
      rule_records = init_records,
      preds_to_remove = Map.empty,
      extract_result_cache = Map.empty,
      var_counter = 0\<rparr>"

definition mark_5_then_6 ::
  "(nat list option \<times> (error option \<times> nat list option) option) option" where
  "mark_5_then_6 =
     (case add_collapsable_predecessor blank_state 5 1 of
        Some (None, w1) \<Rightarrow>
          Some (preds_to_remove w1 1,
                map_option (\<lambda>(e, w2). (e, preds_to_remove w2 1))
                  (add_collapsable_predecessor
                     (w1\<lparr>rule_records := append_record (rule_records w1) r12\<rparr>) 6 2))
      | _ \<Rightarrow> None)"

text \<open>
  Nodes 1 and 2 feed node 3; nodes 2 and 3 are results; successor 3 is accounted for
  under both predecessors.
\<close>

definition prune_state :: "(nat, nat, nat) rule_state" where
  "prune_state =
     \<lparr>rule_graph = \<lparr>nodes = [1, 2, 3], edges = [(1, 3), (2, 3)], results = [Some 2, Some 3]\<rparr>,
      rule_entities = plain (\<lambda>n. if n = 3 then [1, 2] else []),
      rule_records = init_records,
      preds_to_remove = [1 \<mapsto> [3], 2 \<mapsto> [3]],
      extract_result_cache = Map.empty,
      var_counter = 0\<rparr>"

text \<open>
  A rule on a graph whose nodes 1 and 2 are the two outputs of one operand 10 and
  whose node 3 is the output of operand 30. The rule matches operand 10 only, and its
  state counts the calls of \<open>apply_to_operand\<close>.
\<close>

definition counting_rule :: "(nat, nat, nat) operand_rule" where
  "counting_rule =
     \<lparr>graph_of = (\<lambda>w. \<lparr>nodes = [1, 2, 3], edges = [], results = [Some 3]\<rparr>),
      topological_iter = nodes,
      entity_op = (\<lambda>n. if n = 3 then 30 else 10),
      op_types = (\<lambda>op. True),
      match_operand = (\<lambda>op w. Some (Inr (op = 10), w)),
      apply_to_operand = (\<lambda>op w. Some (None, Suc w))\<rparr>"

text \<open>
  Nodes 1 and 3 feed node 2, the only result. The rule removes node 1 from the graph,
  appends a \<open>delete\<close> record for it, leaves the inputs of node 2 alone and returns true.
\<close>

definition d1 :: "nat OptimizationRecord" where
  "d1 = \<lparr>original_entity = Some 1, new_entity = None, record_type = delete\<rparr>"

definition join_state :: "(nat, nat, nat) rule_state" where
  "join_state =
     \<lparr>rule_graph = \<lparr>nodes = [1, 3, 2], edges = [(1, 2), (3, 2)], results = [Some 2]\<rparr>,
      rule_entities = plain (\<lambda>n. if n = 2 then [1, 3] else []),
      rule_records = init_records,
      preds_to_remove = Map.empty,
      extract_result_cache = Map.empty,
      var_counter = 0\<rparr>"

definition deleting_rule :: "((nat, nat, nat) rule_state, unit) rule_class" where
  "deleting_rule =
     \<lparr>new_rule = (),
      rule_apply = (\<lambda>p w.
        Some (Inr True, p,
              w\<lparr>rule_graph := remove_node (rule_graph w) 1,
                rule_records := append_record (rule_records w) d1\<rparr>))\<rparr>"

definition join_after :: "(nat, nat, nat) rule_state" where
  "join_after =
     join_state\<lparr>rule_graph := remove_node (rule_graph join_state) 1,
                rule_records := append_record (rule_records join_state) d1\<rparr>"

text \<open>
  Node 1 feeds nodes 3 and 4, which are the results. The rule accounts for successor
  3 of node 1, prunes the predecessors of node 3, then accounts for successor 4 of
  node 1, and returns true.
\<close>

definition fork_state :: "(nat, nat, nat) rule_state" where
  "fork_state =
     \<lparr>rule_graph = \<lparr>nodes = [1, 3, 4], edges = [(1, 3), (1, 4)], results = [Some 3, Some 4]\<rparr>,
      rule_entities = plain (\<lambda>n. if n = 3 \<or> n = 4 then [1] else []),
      rule_records = init_records,
      preds_to_remove = Map.empty,
      extract_result_cache = Map.empty,
      var_counter = 0\<rparr>"

definition marking_rule :: "((nat, nat, nat) rule_state, unit) rule_class" where
  "marking_rule =
     \<lparr>new_rule = (),
      rule_apply = (\<lambda>p w.
        case add_collapsable_predecessor w 3 1 of
          None \<Rightarrow> None
        | Some (Some e, w1) \<Rightarrow> Some (Inl e, p, w1)
        | Some (None, w1) \<Rightarrow>
            (case remove_collapsable_predecessors w1 3 of
               None \<Rightarrow> None
             | Some (Some e, w2) \<Rightarrow> Some (Inl e, p, w2)
             | Some (None, w2) \<Rightarrow>
                 (case add_collapsable_predecessor w2 4 1 of
                    None \<Rightarrow> None
                  | Some (Some e, w3) \<Rightarrow> Some (Inl e, p, w3)
                  | Some (None, w3) \<Rightarrow> Some (Inr True, p, w3))))\<rparr>"

text \<open>
  One call of \<open>optimize\<close> on the graph of \<open>fork_state\<close>, and a second call on an equal
  graph with \<open>_preds_to_remove\<close> as the first call left it.
\<close>

definition first_run :: "(error option \<times> (nat, nat, nat) rule_state) option" where
  "first_run = optimize (\<lambda>rt. marking_rule) (Some [()]) fork_state"

definition second_run :: "(error option \<times> (nat, nat, nat) rule_state) option" where
  "second_run =
     (case first_run of
        Some (None, w1) \<Rightarrow>
          optimize (\<lambda>rt. marking_rule) (Some [()])
            (fork_state\<lparr>preds_to_remove := preds_to_remove w1\<rparr>)
      | _ \<Rightarrow> None)"

text \<open>
  The state of \<open>join_state\<close> as earlier calls of \<open>optimize\<close> may have left it: with
  records, with an entry in \<open>_preds_to_remove\<close>, with a cached extraction and with a
  counter that has advanced.
\<close>

definition join_state_later :: "(nat, nat, nat) rule_state" where
  "join_state_later =
     join_state\<lparr>rule_records := store_12_23,
                preds_to_remove := [3 \<mapsto> [2]],
                extract_result_cache := [2 \<mapsto> no_record],
                var_counter := 5\<rparr>"

text \<open>
  Entity 2 is the sum of entity 1, a column \<open>a\<close> of the data frame 0, and of a scalar
  that is not a literal.
\<close>

definition sum_ops :: "nat \<Rightarrow> (nat, nat) eval_op" where
  "sum_ops n =
     (if n = 1 then ColumnSelect ''a''
      else if n = 2 then BinopUfunc False ''add'' (Entity 1) (Scalar 7)
      else OtherOp)"

definition sum_state :: "(nat, nat, nat) rule_state" where
  "sum_state =
     \<lparr>rule_graph = \<lparr>nodes = [0, 1, 2], edges = [(0, 1), (1, 2)], results = [Some 2]\<rparr>,
      rule_entities = plain (\<lambda>n. if n = 1 then [0] else if n = 2 then [1] else []),
      rule_records = init_records,
      preds_to_remove = Map.empty,
      extract_result_cache = Map.empty,
      var_counter = 0\<rparr>"

section \<open>Resolution through the records\<close>

lemma forward_loop_deleted:
  "chain_deleted m a \<Longrightarrow> forward_loop m a = Some (Inr None)"
  by (induction rule: chain_deleted.induct) (simp_all add: forward_loop.simps)

lemma chain_deleted_dom: "chain_deleted m a \<Longrightarrow> m a \<noteq> None"
  by (erule chain_deleted.cases) simp_all

lemma store_12_d2_chain:
  "chain_deleted (original_entity_to_records store_12_d2) (Some 1)"
proof (rule chain_deleted.hop [where r = r12])
  show "original_entity_to_records store_12_d2 (Some 1) = Some r12"
    by (simp add: store_12_d2_def append_record_def init_records_def r12_def d2_def Let_def)
  show "record_type r12 = replace"
    by (simp add: r12_def)
  show "chain_deleted (original_entity_to_records store_12_d2) (new_entity r12)"
  proof (rule chain_deleted.here [where r = d2])
    show "original_entity_to_records store_12_d2 (new_entity r12) = Some d2"
      by (simp add: store_12_d2_def append_record_def init_records_def r12_def d2_def Let_def)
    show "record_type d2 = delete"
      by (simp add: d2_def)
  qed
qed

text \<open>
  C4, as amended. If the forward chain of \<open>a\<close> reaches a \<open>delete\<close> record, possibly
  after \<open>replace\<close> hops, then \<open>get_optimization_result(a, d)\<close> returns and its value is
  \<open>None\<close>, whatever \<open>d\<close> is. \<open>None\<close> is the deleted outcome of the code; it differs from
  the fallback exactly when the fallback is an entity, not \<open>None\<close>.
\<close>

theorem delete_dominance:
  "chain_deleted (original_entity_to_records s) a \<Longrightarrow>
     get_optimization_result s a d = Some (Inr None) \<and>
     (d \<noteq> None \<longrightarrow> get_optimization_result s a d \<noteq> Some (Inr d))"
  using chain_deleted_dom [of "original_entity_to_records s" a]
  by (auto simp add: get_optimization_result_def forward_loop_deleted)

theorem delete_dominance_witness:
  "chain_deleted (original_entity_to_records store_12_d2) (Some 1) \<and>
   get_optimization_result store_12_d2 (Some 1) (Some 7) = Some (Inr None) \<and>
   get_optimization_result store_12_d2 (Some 1) (Some 7) \<noteq> Some (Inr (Some 7))"
  using delete_dominance [OF store_12_d2_chain, of "Some 7"] store_12_d2_chain
  by simp

text \<open>
  C4 as stated fails for the fallback \<open>None\<close>, which is the default value of the
  parameter: entity 1 is replaced by 2, 2 is deleted, and the value returned for 1 is
  the fallback itself.
\<close>

theorem delete_equals_default_counterexample:
  "chain_deleted (original_entity_to_records store_12_d2) (Some 1) \<and>
   get_optimization_result store_12_d2 (Some 1) None = Some (Inr None)"
proof -
  have "original_entity_to_records store_12_d2 (Some 1) \<noteq> None"
    by (rule chain_deleted_dom [OF store_12_d2_chain])
  then show ?thesis
    using store_12_d2_chain
    by (simp add: get_optimization_result_def forward_loop_deleted)
qed

lemma original_index_append_record:
  "original_entity_to_records (append_record s r) x =
     (if indexed_as_original r x then Some r else original_entity_to_records s x)"
  by (auto simp add: append_record_def indexed_as_original_def Let_def)

lemma optimized_index_append_record:
  "optimized_entity_to_records (append_record s r) x =
     (if indexed_as_optimized r x then Some r else optimized_entity_to_records s x)"
  by (auto simp add: append_record_def indexed_as_optimized_def Let_def)

lemma append_records_Cons: "append_records s (r # rs) = append_records (append_record s r) rs"
  by (simp add: append_records_def)

lemma append_records_append:
  "append_records s (xs @ ys) = append_records (append_records s xs) ys"
  by (simp add: append_records_def)

lemma original_index_untouched:
  "\<forall>r \<in> set rs. \<not> indexed_as_original r x \<Longrightarrow>
     original_entity_to_records (append_records s rs) x = original_entity_to_records s x"
  by (induction rs arbitrary: s)
     (simp_all add: append_records_def original_index_append_record)

lemma optimized_index_untouched:
  "\<forall>r \<in> set rs. \<not> indexed_as_optimized r x \<Longrightarrow>
     optimized_entity_to_records (append_records s rs) x = optimized_entity_to_records s x"
  by (induction rs arbitrary: s)
     (simp_all add: append_records_def optimized_index_append_record)

lemma original_index_stays:
  "original_entity_to_records s x \<noteq> None \<Longrightarrow>
     original_entity_to_records (append_records s rs) x \<noteq> None"
  by (induction rs arbitrary: s)
     (simp_all add: append_records_def original_index_append_record)

lemma optimized_index_stays:
  "optimized_entity_to_records s x \<noteq> None \<Longrightarrow>
     optimized_entity_to_records (append_records s rs) x \<noteq> None"
  by (induction rs arbitrary: s)
     (simp_all add: append_records_def optimized_index_append_record)

text \<open>
  C6, as amended. A \<open>replace\<close> record from \<open>a\<close> to \<open>b\<close> is appended to any store, then
  the records \<open>mid\<close>, then a \<open>replace\<close> record from \<open>b\<close> to \<open>c\<close>, then the records
  \<open>post\<close>. No record of \<open>mid\<close> or \<open>post\<close> takes the place of the first record in an
  index (none is indexed under the original \<open>a\<close> or under the replacement \<open>b\<close>), no
  record of \<open>post\<close> takes the place of the second (none is indexed under the original
  \<open>b\<close> or under the replacement \<open>c\<close>), and in the store so obtained \<open>c\<close> has no record
  as an original and \<open>a\<close> has none as a replacement. Then \<open>get_optimization_result(a)\<close>
  returns \<open>c\<close> and \<open>get_original_entity(c)\<close> returns \<open>a\<close>, whatever the fallbacks are.
\<close>

theorem replace_transitive:
  assumes rab: "rab = \<lparr>original_entity = Some a, new_entity = Some b, record_type = replace\<rparr>"
    and rbc: "rbc = \<lparr>original_entity = Some b, new_entity = Some c, record_type = replace\<rparr>"
    and s': "s' = append_records s (rab # mid @ rbc # post)"
    and a_kept: "\<forall>r \<in> set mid \<union> set post. \<not> indexed_as_original r (Some a)"
    and b_kept: "\<forall>r \<in> set post. \<not> indexed_as_original r (Some b)"
    and oc: "original_entity_to_records s' (Some c) = None"
    and b_kept': "\<forall>r \<in> set mid \<union> set post. \<not> indexed_as_optimized r (Some b)"
    and c_kept: "\<forall>r \<in> set post. \<not> indexed_as_optimized r (Some c)"
    and oa: "optimized_entity_to_records s' (Some a) = None"
  shows "get_optimization_result s' (Some a) d = Some (Inr (Some c)) \<and>
         get_original_entity s' (Some c) d' = Some (Inr (Some a))"
proof -
  let ?s1 = "append_record s rab"
  let ?s2 = "append_records ?s1 mid"
  let ?s3 = "append_record ?s2 rbc"
  have s'3: "s' = append_records ?s3 post"
    by (simp add: s' append_records_Cons append_records_append)
  have ab: "a \<noteq> b"
  proof
    assume "a = b"
    then have "optimized_entity_to_records ?s1 (Some a) \<noteq> None"
      by (simp add: optimized_index_append_record indexed_as_optimized_def rab)
    then have "optimized_entity_to_records ?s2 (Some a) \<noteq> None"
      by (rule optimized_index_stays)
    then have "optimized_entity_to_records ?s3 (Some a) \<noteq> None"
      by (simp add: optimized_index_append_record)
    then have "optimized_entity_to_records s' (Some a) \<noteq> None"
      unfolding s'3 by (rule optimized_index_stays)
    with oa show False by simp
  qed
  have bc: "b \<noteq> c"
  proof
    assume "b = c"
    then have "original_entity_to_records ?s3 (Some c) \<noteq> None"
      by (simp add: original_index_append_record indexed_as_original_def rbc)
    then have "original_entity_to_records s' (Some c) \<noteq> None"
      unfolding s'3 by (rule original_index_stays)
    with oc show False by simp
  qed
  have 1: "original_entity_to_records s' (Some a) = Some rab"
  proof -
    have "original_entity_to_records s' (Some a) = original_entity_to_records ?s3 (Some a)"
      unfolding s'3 using a_kept by (intro original_index_untouched) simp
    also have "\<dots> = original_entity_to_records ?s2 (Some a)"
      using ab by (simp add: original_index_append_record indexed_as_original_def rbc)
    also have "\<dots> = original_entity_to_records ?s1 (Some a)"
      using a_kept by (intro original_index_untouched) simp
    also have "\<dots> = Some rab"
      by (simp add: original_index_append_record indexed_as_original_def rab)
    finally show ?thesis .
  qed
  have 2: "original_entity_to_records s' (Some b) = Some rbc"
  proof -
    have "original_entity_to_records s' (Some b) = original_entity_to_records ?s3 (Some b)"
      unfolding s'3 using b_kept by (intro original_index_untouched) simp
    also have "\<dots> = Some rbc"
      by (simp add: original_index_append_record indexed_as_original_def rbc)
    finally show ?thesis .
  qed
  have 3: "optimized_entity_to_records s' (Some c) = Some rbc"
  proof -
    have "optimized_entity_to_records s' (Some c) = optimized_entity_to_records ?s3 (Some c)"
      unfolding s'3 using c_kept by (intro optimized_index_untouched) simp
    also have "\<dots> = Some rbc"
      by (simp add: optimized_index_append_record indexed_as_optimized_def rbc)
    finally show ?thesis .
  qed
  have 4: "optimized_entity_to_records s' (Some b) = Some rab"
  proof -
    have "optimized_entity_to_records s' (Some b) = optimized_entity_to_records ?s3 (Some b)"
      unfolding s'3 using b_kept' by (intro optimized_index_untouched) simp
    also have "\<dots> = optimized_entity_to_records ?s2 (Some b)"
      using bc by (simp add: optimized_index_append_record indexed_as_optimized_def rbc)
    also have "\<dots> = optimized_entity_to_records ?s1 (Some b)"
      using b_kept' by (intro optimized_index_untouched) simp
    also have "\<dots> = Some rab"
      by (simp add: optimized_index_append_record indexed_as_optimized_def rab)
    finally show ?thesis .
  qed
  have f: "forward_loop (original_entity_to_records s') (Some a) = Some (Inr (Some c))"
    by (subst forward_loop.simps, simp add: 1 rab, subst forward_loop.simps, simp add: 2 rbc,
        subst forward_loop.simps, simp add: oc)
  have b: "backward_loop (optimized_entity_to_records s') (Some c) = Some (Inr (Some a))"
    by (subst backward_loop.simps, simp add: 3 rbc, subst backward_loop.simps, simp add: 4 rab,
        subst backward_loop.simps, simp add: oa)
  show ?thesis
    using f b 1 3 by (simp add: get_optimization_result_def get_original_entity_def)
qed

text \<open>
  The records 1 to 2, 5 to 6, 2 to 3, 7 to 8, appended to the empty store: \<open>mid\<close> is
  the record 5 to 6 and \<open>post\<close> is the record 7 to 8.
\<close>

theorem replace_transitive_witness:
  "store_12_56_23_78 = append_records init_records (r12 # [r56] @ r23 # [r78]) \<and>
   \<not> indexed_as_original r56 (Some 1) \<and> \<not> indexed_as_original r78 (Some 1) \<and>
   \<not> indexed_as_original r78 (Some 2) \<and>
   original_entity_to_records store_12_56_23_78 (Some 3) = None \<and>
   \<not> indexed_as_optimized r56 (Some 2) \<and> \<not> indexed_as_optimized r78 (Some 2) \<and>
   \<not> indexed_as_optimized r78 (Some 3) \<and>
   optimized_entity_to_records store_12_56_23_78 (Some 1) = None \<and>
   get_optimization_result store_12_56_23_78 (Some 1) None = Some (Inr (Some 3)) \<and>
   get_original_entity store_12_56_23_78 (Some 3) None = Some (Inr (Some 1))"
  using replace_transitive
    [of r12 1 2 r23 3 store_12_56_23_78 init_records "[r56]" "[r78]" None None]
  by (simp add: store_12_56_23_78_def r12_def r23_def r56_def r78_def append_records_def
      append_record_def init_records_def indexed_as_original_def indexed_as_optimized_def Let_def)

text \<open>
  C6 as stated fails. The store holds the record 1 to 2 and the later record 2 to 3,
  no record has 3 as its original and none has 1 as its replacement; but the record
  9 to 2, appended between the two, has taken the place of the record 1 to 2 in the
  index of replacements, and \<open>get_original_entity(3)\<close> returns 9.
\<close>

theorem replace_overwritten_counterexample:
  "records store_12_92_23 = [r12, r92, r23] \<and>
   original_entity_to_records store_12_92_23 (Some 3) = None \<and>
   optimized_entity_to_records store_12_92_23 (Some 1) = None \<and>
   get_original_entity store_12_92_23 (Some 3) None = Some (Inr (Some 9))"
  by (simp add: store_12_92_23_def r12_def r92_def r23_def append_records_def
      append_record_def init_records_def get_original_entity_def Let_def backward_loop.simps)

section \<open>Replacing a subgraph\<close>

lemmas graph_defs = iter_nodes_def add_node_def remove_node_def add_edge_def successors_def
  predecessors_def contains_def

lemma index_subgraph_eq:
  "index_subgraph E rm ns m =
     (if \<exists>node \<in> set ns. node \<in> set rm then Inl ValueError
      else Inr (fold (index_outputs E) ns m))"
  by (induction ns arbitrary: m) auto

lemma connect_inputs_error:
  "connect_inputs E m node inps g = (Some e, g') \<Longrightarrow> e = KeyError"
  by (induction inps arbitrary: g) (auto split: option.splits)

lemma connect_nodes_error:
  "connect_nodes E m ns g = (Some e, g') \<Longrightarrow> e = KeyError"
proof (induction ns arbitrary: g)
  case Nil
  then show ?case by simp
next
  case (Cons n ns)
  then show ?case
    by (auto split: prod.splits option.splits dest: connect_inputs_error)
qed

lemma fold_remove_node_results:
  "results (fold (\<lambda>node g'. remove_node g' node) ns g) = results g"
  by (induction ns arbitrary: g) (simp_all add: remove_node_def)

text \<open>
  The three checks that raise \<open>ValueError\<close> come before the first removal: a call that
  raises \<open>ValueError\<close> leaves the graph as it was.
\<close>

lemma replace_subgraph_ValueError_unchanged:
  "fst (replace_subgraph E graph rm nr rr g) = Some ValueError \<Longrightarrow>
     snd (replace_subgraph E graph rm nr rr g) = g"
proof -
  assume raised: "fst (replace_subgraph E graph rm nr rr g) = Some ValueError"
  let ?idx = "case graph of None \<Rightarrow> Inr Map.empty
              | Some sub \<Rightarrow> index_subgraph E rm (iter_nodes sub) Map.empty"
  show ?thesis
  proof (cases ?idx)
    case (Inl e)
    then show ?thesis by (simp add: replace_subgraph_def Let_def)
  next
    case (Inr m)
    let ?m = "index_original E rm (iter_nodes g) m"
    show ?thesis
    proof (cases "\<exists>result \<in> set nr. ?m (key E result) = None")
      case True
      then show ?thesis using Inr by (simp add: replace_subgraph_def Let_def)
    next
      case c2: False
      show ?thesis
      proof (cases "\<exists>s \<in> set (affected_successors g rm). \<exists>inp \<in> set (inputs E s).
                      ?m (key E inp) = None")
        case True
        then show ?thesis using Inr c2 by (simp add: replace_subgraph_def Let_def)
      next
        case c3: False
        have "fst (replace_subgraph E graph rm nr rr g) \<noteq> Some ValueError"
          using Inr c2 c3
          by (auto simp add: replace_subgraph_def Let_def
              split: prod.splits option.splits dest: connect_nodes_error)
        with raised show ?thesis by simp
      qed
    qed
  qed
qed

text \<open>Without an input graph the call returns before \<open>results\<close> is assigned.\<close>

lemma replace_subgraph_None_results:
  "results (snd (replace_subgraph E None rm nr rr g)) = results g"
  by (simp add: replace_subgraph_def Let_def fold_remove_node_results)

text \<open>
  C1 at the failing input. Node 1 is replaced by node 2, whose input 3 has no producer
  in the merged index. The three checks pass, as they look at the inputs of the affected
  successor 4 only; node 1 and its edge are removed, node 2 is added, and the lookup of
  line 216 raises \<open>KeyError\<close>. The call fails and leaves a graph without node 1, with
  node 2 and with no edge into node 4.
\<close>

theorem replace_subgraph_fails_after_removal:
  "replace_subgraph ents_dangling (Some graph_only_2) [1] [] [] graph_1_4 =
     (Some KeyError, \<lparr>nodes = [4, 2], edges = [], results = [Some 4]\<rparr>)"
  by (simp add: replace_subgraph_def ents_dangling_def graph_only_2_def graph_1_4_def
      graph_defs index_outputs_def index_original_def affected_successors_def Let_def)

text \<open>
  C2 at the failing input. Node 2, the only result, is deleted with no input graph and
  with \<open>results_to_remove = [2]\<close>. The node and its edge vanish and nothing is added,
  but \<open>results\<close> still lists node 2: the \<open>return\<close> of line 209 comes before the
  assignment of line 219.
\<close>

theorem pure_deletion_keeps_results:
  "replace_subgraph (plain (\<lambda>n. if n = 2 then [1] else [])) None [2] [] [2] graph_1_2 =
     (None, \<lparr>nodes = [1], edges = [], results = [Some 2]\<rparr>)"
  by (simp add: replace_subgraph_def plain_def graph_1_2_def graph_defs
      index_outputs_def index_original_def affected_successors_def Let_def)

text \<open>
  C5. \<open>_replace_subgraph\<close> raises \<open>ValueError\<close> exactly when a node of the input graph
  is in \<open>nodes_to_remove\<close>, or a member of \<open>new_results\<close> has no producer in the merged
  index of output keys, or an affected successor has an input with no producer in the
  merged index. The error is part of the outcome of the call: nothing catches it.
\<close>

theorem replace_subgraph_raises_iff:
  "fst (replace_subgraph E graph nodes_to_remove new_results results_to_remove g)
     = Some ValueError
   \<longleftrightarrow>
   (\<exists>node \<in> set (sub_nodes graph). node \<in> set nodes_to_remove) \<or>
   (\<exists>result \<in> set new_results.
      merged_index E graph nodes_to_remove g (key E result) = None) \<or>
   (\<exists>s \<in> set (affected_successors g nodes_to_remove). \<exists>inp \<in> set (inputs E s).
      merged_index E graph nodes_to_remove g (key E inp) = None)"
proof (cases graph)
  case None
  then show ?thesis
    by (simp add: replace_subgraph_def merged_index_def sub_nodes_def Let_def)
next
  case (Some sub)
  show ?thesis
  proof (cases "\<exists>node \<in> set (iter_nodes sub). node \<in> set nodes_to_remove")
    case True
    then show ?thesis
      by (simp add: Some replace_subgraph_def sub_nodes_def index_subgraph_eq Let_def)
  next
    case False
    let ?m = "index_original E nodes_to_remove (iter_nodes g)
                (fold (index_outputs E) (iter_nodes sub) Map.empty)"
    let ?c2 = "\<exists>result \<in> set new_results. ?m (key E result) = None"
    let ?c3 = "\<exists>s \<in> set (affected_successors g nodes_to_remove).
                 \<exists>inp \<in> set (inputs E s). ?m (key E inp) = None"
    show ?thesis
    proof (cases ?c2)
      case True
      then show ?thesis using False
        by (simp add: Some replace_subgraph_def sub_nodes_def index_subgraph_eq Let_def
            merged_index_def)
    next
      case c2: False
      show ?thesis
      proof (cases ?c3)
        case True
        then show ?thesis using False c2
          by (simp add: Some replace_subgraph_def sub_nodes_def index_subgraph_eq Let_def
              merged_index_def)
      next
        case c3: False
        have "fst (replace_subgraph E graph nodes_to_remove new_results results_to_remove g)
                \<noteq> Some ValueError"
          using False c2 c3
          by (auto simp add: Some replace_subgraph_def index_subgraph_eq Let_def
              split: prod.splits option.splits dest: connect_nodes_error)
        then show ?thesis using False c2 c3
          by (simp add: Some sub_nodes_def merged_index_def)
      qed
    qed
  qed
qed

text \<open>
  Node 2 of the input graph is also marked for removal: the first condition holds,
  and the call raises \<open>ValueError\<close>.
\<close>

theorem replace_subgraph_raises_iff_witness:
  "(\<exists>node \<in> set (sub_nodes (Some graph_only_2)). node \<in> set [1, 2]) \<and>
   fst (replace_subgraph ents_dangling (Some graph_only_2) [1, 2] [] [] graph_1_4)
     = Some ValueError"
  using replace_subgraph_raises_iff [of ents_dangling "Some graph_only_2" "[1, 2]" "[]" "[]"
      graph_1_4]
  by (simp add: sub_nodes_def graph_only_2_def iter_nodes_def)

section \<open>Collapsable predecessors\<close>

lemma blank_state_mark_5:
  "add_collapsable_predecessor blank_state 5 1 =
     Some (None, blank_state\<lparr>preds_to_remove := [1 \<mapsto> [5]]\<rparr>)"
  by (simp add: add_collapsable_predecessor_def blank_state_def get_original_entity_def
      init_records_def)

lemma original_of_2_after_r12:
  "get_original_entity (append_record init_records r12) (Some 2) (Some 2) = Some (Inr (Some 1))"
  by (simp add: get_original_entity_def init_records_def append_record_def r12_def Let_def
      backward_loop.simps)

text \<open>
  C9 at the failing input. Successor 5 is accounted for under predecessor 1; then 1 is
  replaced by 2 in the records; then successor 6 is accounted for under predecessor 2,
  whose original is 1. The first call stores \<open>{5}\<close> under 1. The second call tests
  whether 2 is a key, finds that it is not, and stores \<open>{6}\<close> under 1: successor 5 is no
  longer in the set kept for the original 1.
\<close>

theorem mark_forgets_accounted_successor:
  "mark_5_then_6 = Some (Some [5], Some (None, Some [6]))"
  unfolding mark_5_then_6_def blank_state_mark_5
  by (simp add: add_collapsable_predecessor_def blank_state_def original_of_2_after_r12)

lemma collapsable_pairs_not_results:
  "collapsable_pairs w preds = Some (Inr ps) \<Longrightarrow>
     \<forall>(pred_original, pred_opt) \<in> set ps. pred_opt \<notin> set (results (rule_graph w))"
proof (induction preds arbitrary: ps)
  case Nil
  then show ?case by simp
next
  case (Cons pred preds)
  from Cons.prems show ?case
    by (auto simp add: Let_def split: option.splits sum.splits if_splits dest!: Cons.IH)
qed

lemma remove_pairs_results:
  "results (rule_graph (remove_pairs ps w)) = results (rule_graph w)"
  by (induction ps w rule: remove_pairs.induct)
     (simp_all add: remove_node_def split: option.splits)

lemma remove_pairs_nodes:
  "n \<in> set (nodes (rule_graph w)) \<Longrightarrow> Some n \<notin> snd ` set ps \<Longrightarrow>
     n \<in> set (nodes (rule_graph (remove_pairs ps w)))"
proof (induction ps w rule: remove_pairs.induct)
  case (1 w)
  then show ?case by simp
next
  case (2 pred_original pred_opt ps w)
  then show ?case
    by (cases pred_opt) (auto simp add: remove_node_def)
qed

lemma prune_state_run:
  "map_option (\<lambda>(e, w'). (e, rule_graph w')) (remove_collapsable_predecessors prune_state 3) =
     Some (None, \<lparr>nodes = [2, 3], edges = [(2, 3)], results = [Some 2, Some 3]\<rparr>)"
  by (simp add: remove_collapsable_predecessors_def prune_state_def
      get_optimization_result_def get_original_entity_def init_records_def predecessors_def
      successors_def remove_node_def Let_def)

text \<open>
  C7. Whenever \<open>_remove_collapsable_predecessors\<close> returns or raises, in any state of the
  records, of the graph and of \<open>_preds_to_remove\<close>, \<open>graph.results\<close> is what it was and
  every node of the graph that is listed in \<open>graph.results\<close> is still a node of the
  graph.
\<close>

theorem prune_keeps_results:
  assumes "remove_collapsable_predecessors w node = Some (e, w')"
  shows "results (rule_graph w') = results (rule_graph w) \<and>
         (\<forall>n \<in> set (nodes (rule_graph w)).
            Some n \<in> set (results (rule_graph w)) \<longrightarrow> n \<in> set (nodes (rule_graph w')))"
proof (cases "get_optimization_result (rule_records w) (Some node) None")
  case None
  with assms show ?thesis by (simp add: remove_collapsable_predecessors_def)
next
  case (Some res)
  show ?thesis
  proof (cases res)
    case (Inl err)
    with Some assms show ?thesis by (auto simp add: remove_collapsable_predecessors_def)
  next
    case (Inr r)
    let ?node = "case r of None \<Rightarrow> node | Some n \<Rightarrow> n"
    show ?thesis
    proof (cases "collapsable_pairs w (predecessors (rule_graph w) ?node)")
      case None
      with Some Inr assms show ?thesis
        by (simp add: remove_collapsable_predecessors_def)
    next
      case pairs: (Some res')
      show ?thesis
      proof (cases res')
        case (Inl err)
        with Some Inr pairs assms show ?thesis
          by (auto simp add: remove_collapsable_predecessors_def)
      next
        case ps: (Inr ps)
        from Some Inr pairs ps assms have w': "w' = remove_pairs ps w"
          by (auto simp add: remove_collapsable_predecessors_def)
        from pairs ps
        have "collapsable_pairs w (predecessors (rule_graph w) ?node) = Some (Inr ps)"
          by simp
        from collapsable_pairs_not_results [OF this]
        have "\<And>n. Some n \<in> set (results (rule_graph w)) \<Longrightarrow> Some n \<notin> snd ` set ps"
          by force
        then show ?thesis
          using w' by (simp add: remove_pairs_results remove_pairs_nodes)
      qed
    qed
  qed
qed

text \<open>
  In \<open>prune_state\<close> both predecessors of node 3 have all their successors accounted
  for. The call removes node 1, which is no result, and keeps node 2, which is one.
\<close>

theorem prune_keeps_results_witness:
  "\<exists>e w'. remove_collapsable_predecessors prune_state 3 = Some (e, w') \<and>
          nodes (rule_graph w') = [2, 3] \<and>
          results (rule_graph w') = results (rule_graph prune_state) \<and>
          2 \<in> set (nodes (rule_graph w'))"
proof -
  from prune_state_run obtain e w'
    where run: "remove_collapsable_predecessors prune_state 3 = Some (e, w')"
      and g: "rule_graph w' = \<lparr>nodes = [2, 3], edges = [(2, 3)], results = [Some 2, Some 3]\<rparr>"
    by auto
  have "2 \<in> set (nodes (rule_graph prune_state))"
    and "Some 2 \<in> set (results (rule_graph prune_state))"
    by (simp_all add: prune_state_def)
  with prune_keeps_results [OF run]
  have "results (rule_graph w') = results (rule_graph prune_state)"
    and "2 \<in> set (nodes (rule_graph w'))"
    by auto
  with run g show ?thesis by simp
qed

section \<open>Applying a rule operand by operand\<close>

lemma match_calls_append [simp]: "match_calls (xs @ ys) = match_calls xs @ match_calls ys"
  by (induction xs rule: match_calls.induct) simp_all

lemma apply_calls_append [simp]: "apply_calls (xs @ ys) = apply_calls xs @ apply_calls ys"
  by (induction xs rule: apply_calls.induct) simp_all

lemma loop_inv_visit:
  "loop_inv visited optimized calls \<Longrightarrow> loop_inv (op # visited) optimized calls"
  by (auto simp add: loop_inv_def)

lemma loop_inv_nomatch:
  "loop_inv visited optimized calls \<Longrightarrow> op \<notin> set visited \<Longrightarrow>
   loop_inv (op # visited) optimized (calls @ [Matched op False])"
  by (auto simp add: loop_inv_def)

lemma loop_inv_match:
  "loop_inv visited optimized calls \<Longrightarrow> op \<notin> set visited \<Longrightarrow>
   loop_inv (op # visited) True (calls @ [Matched op True, Applied op])"
  by (auto simp add: loop_inv_def)

lemma apply_loop_inv:
  "apply_loop R entities visited optimized calls w = Some (calls', res, w') \<Longrightarrow>
   loop_inv visited optimized calls \<Longrightarrow>
   distinct (match_calls calls') \<and> distinct (apply_calls calls') \<and>
   (\<forall>b. res = Inr b \<longrightarrow> (b \<longleftrightarrow> (\<exists>op. Matched op True \<in> set calls')))"
proof (induction entities arbitrary: visited optimized calls w)
  case Nil
  then show ?case by (auto simp add: loop_inv_def)
next
  case (Cons entity entities)
  let ?op = "entity_op R entity"
  show ?case
  proof (cases "?op \<in> set visited")
    case True
    with Cons.prems have "apply_loop R entities visited optimized calls w = Some (calls', res, w')"
      by simp
    from Cons.IH [OF this Cons.prems(2)] show ?thesis .
  next
    case fresh: False
    show ?thesis
    proof (cases "contains (graph_of R w) entity \<and> op_types R ?op")
      case False
      with fresh Cons.prems
      have "apply_loop R entities (?op # visited) optimized calls w = Some (calls', res, w')"
        by (auto simp add: Let_def split: if_splits)
      from Cons.IH [OF this loop_inv_visit [OF Cons.prems(2)]] show ?thesis .
    next
      case True
      show ?thesis
      proof (cases "match_operand R ?op w")
        case None
        with fresh True Cons.prems show ?thesis by (simp add: Let_def)
      next
        case (Some mr)
        obtain r w1 where mr: "mr = (r, w1)" by (cases mr)
        show ?thesis
        proof (cases r)
          case (Inl e)
          with fresh True Some mr Cons.prems
          have "calls' = calls @ [Matched ?op False]" "res = Inl e"
            by (simp_all add: Let_def)
          with loop_inv_nomatch [OF Cons.prems(2) fresh] show ?thesis
            by (simp add: loop_inv_def)
        next
          case (Inr b)
          show ?thesis
          proof (cases b)
            case False
            with fresh True Some mr Inr Cons.prems
            have "apply_loop R entities (?op # visited) optimized (calls @ [Matched ?op False]) w1
                    = Some (calls', res, w')"
              by (simp add: Let_def)
            from Cons.IH [OF this loop_inv_nomatch [OF Cons.prems(2) fresh]] show ?thesis .
          next
            case matched: True
            show ?thesis
            proof (cases "apply_to_operand R ?op w1")
              case None
              with fresh True Some mr Inr matched Cons.prems show ?thesis
                by (simp add: Let_def)
            next
              case ar: (Some ar)
              obtain eo w2 where ar': "ar = (eo, w2)" by (cases ar)
              show ?thesis
              proof (cases eo)
                case None
                with fresh True Some mr Inr matched ar ar' Cons.prems
                have "apply_loop R entities (?op # visited) True
                        (calls @ [Matched ?op True, Applied ?op]) w2 = Some (calls', res, w')"
                  by (simp add: Let_def)
                from Cons.IH [OF this loop_inv_match [OF Cons.prems(2) fresh]] show ?thesis .
              next
                case (Some e)
                with fresh True \<open>match_operand R ?op w = Some mr\<close> mr Inr matched ar ar' Cons.prems
                have "calls' = calls @ [Matched ?op True, Applied ?op]" "res = Inl e"
                  by (simp_all add: Let_def)
                with loop_inv_match [OF Cons.prems(2) fresh] show ?thesis
                  by (simp add: loop_inv_def)
              qed
            qed
          qed
        qed
      qed
    qed
  qed
qed

lemma counting_rule_run:
  "apply_rule counting_rule 0 =
     Some ([Matched 10 True, Applied 10, Matched 30 False], Inr True, 1)"
  by (simp add: apply_rule_def counting_rule_def contains_def Let_def)

text \<open>
  C10. In one call of \<open>apply\<close> that returns or raises, no operand is passed to
  \<open>match_operand\<close> twice and none is passed to \<open>apply_to_operand\<close> twice, whatever the
  graph and however many entities share an operand; and when the call returns, it
  returns true exactly when some call of \<open>match_operand\<close> returned true.
\<close>

theorem apply_once_per_operand:
  "apply_rule R w = Some (calls, res, w') \<Longrightarrow>
     distinct (match_calls calls) \<and> distinct (apply_calls calls) \<and>
     (\<forall>b. res = Inr b \<longrightarrow> (b \<longleftrightarrow> (\<exists>op. Matched op True \<in> set calls)))"
  unfolding apply_rule_def
  by (erule apply_loop_inv) (simp add: loop_inv_def)

text \<open>
  Nodes 1 and 2 share operand 10: it is matched and applied once, operand 30 is
  matched once, and the call returns true.
\<close>

theorem apply_once_per_operand_witness:
  "apply_rule counting_rule 0 =
     Some ([Matched 10 True, Applied 10, Matched 30 False], Inr True, 1) \<and>
   distinct (match_calls [Matched (10::nat) True, Applied 10, Matched 30 False]) \<and>
   distinct (apply_calls [Matched (10::nat) True, Applied 10, Matched 30 False]) \<and>
   (\<exists>op. Matched op True \<in> set [Matched (10::nat) True, Applied 10, Matched 30 False])"
  using apply_once_per_operand [OF counting_rule_run] counting_rule_run
  by simp

section \<open>The optimizer\<close>

lemma forward_loop_end_aux:
  "forward_loop m a = Some y \<Longrightarrow> \<forall>x. y = Inr (Some x) \<longrightarrow> m (Some x) = None"
proof (rule forward_loop.raw_induct
    [where P = "\<lambda>m a y. \<forall>x. y = Inr (Some x) \<longrightarrow> m (Some x) = None"])
  fix f :: "('a option \<rightharpoonup> 'a OptimizationRecord) \<Rightarrow> 'a option \<Rightarrow> (error + 'a option) option"
    and m' entity y'
  assume IH: "\<And>m a y. f m a = Some y \<Longrightarrow> \<forall>x. y = Inr (Some x) \<longrightarrow> m (Some x) = None"
    and body: "(case m' entity of
                  None \<Rightarrow> Some (Inr entity)
                | Some r \<Rightarrow>
                    if record_type r = replace then f m' (new_entity r)
                    else if record_type r = delete then Some (Inr None)
                    else Some (Inl AssertionError)) = Some y'"
  show "\<forall>x. y' = Inr (Some x) \<longrightarrow> m' (Some x) = None"
  proof (cases "m' entity")
    case None
    with body show ?thesis by auto
  next
    case (Some r)
    with body IH [of m' "new_entity r" y'] show ?thesis
      by (auto split: if_splits)
  qed
qed

lemma forward_loop_end:
  "forward_loop m a = Some (Inr (Some x)) \<Longrightarrow> m (Some x) = None"
  using forward_loop_end_aux by blast

lemma resolved_twice:
  assumes "get_optimization_result s (Some inp) None = Some (Inr r)"
  shows "get_optimization_result s (Some (resolved_input s inp)) None = Some (Inr None)"
proof (cases r)
  case None
  with assms show ?thesis by (simp add: resolved_input_def)
next
  case (Some x)
  with assms have "forward_loop (original_entity_to_records s) (Some inp) = Some (Inr (Some x))"
    by (simp add: get_optimization_result_def split: if_splits)
  from forward_loop_end [OF this]
  have "original_entity_to_records s (Some x) = None" .
  with assms Some show ?thesis
    by (simp add: resolved_input_def get_optimization_result_def)
qed

lemma resolved_input_idem:
  assumes "get_optimization_result s (Some inp) None = Some (Inr r)"
  shows "resolved_input s (resolved_input s inp) = resolved_input s inp"
  using resolved_twice [OF assms] by (simp add: resolved_input_def [of s "resolved_input s inp"])

lemma inputs_loop_eq:
  "\<forall>inp \<in> set inps. \<exists>r. get_optimization_result s (Some inp) None = Some (Inr r) \<Longrightarrow>
   inputs_loop s inps flag acc =
     Some (Inr (flag \<or> map (resolved_input s) inps \<noteq> inps, acc @ map (resolved_input s) inps))"
proof (induction inps arbitrary: flag acc)
  case Nil
  then show ?case by simp
next
  case (Cons inp inps)
  from Cons.prems obtain r where r: "get_optimization_result s (Some inp) None = Some (Inr r)"
    by auto
  have ri: "(case r of None \<Rightarrow> inp | Some x \<Rightarrow> x) = resolved_input s inp"
    using r by (simp add: resolved_input_def split: option.splits)
  from Cons.prems have "\<forall>inp \<in> set inps. \<exists>r. get_optimization_result s (Some inp) None = Some (Inr r)"
    by simp
  from Cons.IH [OF this] r ri show ?case
    by (auto simp add: Let_def)
qed


lemma replace_inputs_loop_eq:
  assumes res: "\<forall>n \<in> set succs. \<forall>inp \<in> set (inputs E0 n).
                  \<exists>r. get_optimization_result s (Some inp) None = Some (Inr r)"
    and inv: "\<forall>n. inputs E n = inputs E0 n \<or> inputs E n = map (resolved_input s) (inputs E0 n)"
  shows "\<exists>E'. replace_inputs_loop s succs E = Some (None, E') \<and>
               key E' = key E \<and> outputs E' = outputs E \<and>
               (\<forall>n. inputs E' n =
                  (if n \<in> set succs then map (resolved_input s) (inputs E0 n) else inputs E n))"
  using res inv
proof (induction succs arbitrary: E)
  case Nil
  then show ?case by simp
next
  case (Cons succ succs)
  let ?ri = "resolved_input s"
  let ?xs = "inputs E succ"
  have r0: "\<forall>inp \<in> set (inputs E0 succ). \<exists>r. get_optimization_result s (Some inp) None = Some (Inr r)"
    using Cons.prems(1) by simp
  have idem: "map ?ri (map ?ri (inputs E0 succ)) = map ?ri (inputs E0 succ)"
    using r0 resolved_input_idem by (fastforce simp add: map_idI)
  from Cons.prems(2) have alt: "?xs = inputs E0 succ \<or> ?xs = map ?ri (inputs E0 succ)"
    by blast
  have rx: "\<forall>inp \<in> set ?xs. \<exists>r. get_optimization_result s (Some inp) None = Some (Inr r)"
    using alt r0 resolved_twice by fastforce
  have mx: "map ?ri ?xs = map ?ri (inputs E0 succ)"
    using alt idem by auto
  let ?E1 = "if map ?ri ?xs \<noteq> ?xs then E\<lparr>inputs := (inputs E)(succ := map ?ri ?xs)\<rparr> else E"
  have step: "replace_inputs_loop s (succ # succs) E = replace_inputs_loop s succs ?E1"
    using inputs_loop_eq [OF rx, of False "[]"] by simp
  have E1: "inputs ?E1 = (inputs E)(succ := map ?ri (inputs E0 succ))"
    "key ?E1 = key E" "outputs ?E1 = outputs E"
    using mx by (auto simp add: fun_eq_iff)
  have res': "\<forall>n \<in> set succs. \<forall>inp \<in> set (inputs E0 n).
                \<exists>r. get_optimization_result s (Some inp) None = Some (Inr r)"
    using Cons.prems(1) by simp
  have inv': "\<forall>n. inputs ?E1 n = inputs E0 n \<or> inputs ?E1 n = map ?ri (inputs E0 n)"
    using Cons.prems(2) by (simp only: E1) auto
  from Cons.IH [OF res' inv'] obtain E'
    where E': "replace_inputs_loop s succs ?E1 = Some (None, E')"
      "key E' = key ?E1" "outputs E' = outputs ?E1"
      "\<forall>n. inputs E' n =
         (if n \<in> set succs then map ?ri (inputs E0 n) else inputs ?E1 n)"
    by blast
  have "\<forall>n. inputs E' n =
          (if n \<in> set (succ # succs) then map ?ri (inputs E0 n) else inputs E n)"
    using E'(4) by (simp only: E1) auto
  with step E'(1,2,3) E1(2,3) show ?case
    by (intro exI [of _ E']) simp
qed

lemma resolve_each_eq:
  "\<forall>x \<in> set xs. \<exists>r. get_optimization_result s x x = Some (Inr r) \<Longrightarrow>
   \<exists>ys. resolve_each s xs = Some (Inr ys) \<and>
        list_all2 (\<lambda>x y. get_optimization_result s x x = Some (Inr y)) xs ys"
proof (induction xs)
  case Nil
  then show ?case by simp
next
  case (Cons x xs)
  from Cons.prems obtain r where r: "get_optimization_result s x x = Some (Inr r)" by auto
  from Cons obtain ys where "resolve_each s xs = Some (Inr ys)"
    "list_all2 (\<lambda>x y. get_optimization_result s x x = Some (Inr y)) xs ys" by auto
  with r show ?case by simp
qed


lemma repair_eq:
  assumes ri: "\<forall>succ \<in> set (consumers (rule_graph w)). \<forall>inp \<in> set (inputs (rule_entities w) succ).
                 \<exists>r. get_optimization_result (rule_records w) (Some inp) None = Some (Inr r)"
    and rr: "\<forall>result \<in> set (results (rule_graph w)).
                 \<exists>r. get_optimization_result (rule_records w) result result = Some (Inr r)"
  shows "\<exists>w2. repair w = Some (None, w2) \<and>
           rule_records w2 = rule_records w \<and> preds_to_remove w2 = preds_to_remove w \<and>
           nodes (rule_graph w2) = nodes (rule_graph w) \<and>
           edges (rule_graph w2) = edges (rule_graph w) \<and>
           (\<forall>n. inputs (rule_entities w2) n =
              (if n \<in> set (consumers (rule_graph w))
               then map (resolved_input (rule_records w)) (inputs (rule_entities w) n)
               else inputs (rule_entities w) n)) \<and>
           list_all2 (\<lambda>result r. get_optimization_result (rule_records w) result result = Some (Inr r))
             (results (rule_graph w)) (results (rule_graph w2))"
proof -
  from replace_inputs_loop_eq [OF ri, of "rule_entities w"] obtain E'
    where E': "replace_inputs (rule_graph w) (rule_records w) (rule_entities w) = Some (None, E')"
      "\<forall>n. inputs E' n =
         (if n \<in> set (consumers (rule_graph w))
          then map (resolved_input (rule_records w)) (inputs (rule_entities w) n)
          else inputs (rule_entities w) n)"
    unfolding replace_inputs_def by auto
  from resolve_each_eq [OF rr] obtain ys
    where ys: "resolve_each (rule_records w) (results (rule_graph w)) = Some (Inr ys)"
      "list_all2 (\<lambda>result r. get_optimization_result (rule_records w) result result = Some (Inr r))
         (results (rule_graph w)) ys"
    by blast
  let ?w2 = "w\<lparr>rule_entities := E', rule_graph := (rule_graph w)\<lparr>results := ys\<rparr>\<rparr>"
  have "repair w = Some (None, ?w2)"
    by (simp add: repair_def E'(1) ys(1))
  with E'(2) ys(2) show ?thesis
    by (intro exI [of _ ?w2]) simp
qed

lemma join_apply:
  "rule_apply deleting_rule (cached_rule (\<lambda>rt. deleting_rule) Map.empty ()) join_state
     = Some (Inr True, (), join_after)"
  by (simp add: deleting_rule_def join_after_def)

lemma join_after_fields:
  "rule_graph join_after = \<lparr>nodes = [3, 2], edges = [(3, 2)], results = [Some 2]\<rparr>"
  "inputs (rule_entities join_after) = (\<lambda>n. if n = 2 then [1, 3] else [])"
  "rule_records join_after = append_record init_records d1"
  by (simp_all add: join_after_def join_state_def remove_node_def plain_def)

lemma join_lookups:
  "get_optimization_result (append_record init_records d1) (Some 1) None = Some (Inr None)"
  "get_optimization_result (append_record init_records d1) (Some 3) None = Some (Inr None)"
  "get_optimization_result (append_record init_records d1) (Some 2) (Some 2) = Some (Inr (Some 2))"
  by (simp_all add: get_optimization_result_def append_record_def init_records_def d1_def
      Let_def forward_loop.simps)

text \<open>
  C3, as amended. When the \<open>apply\<close> of a rule returns true, and every lookup that the
  repair makes returns without failing its assertion, \<open>optimize\<close> goes on to the next
  rule type with a state in which: every entity that is a successor of a node of the
  graph has each input replaced by what the records resolve it to, an input whose
  lookup yields \<open>None\<close> (no record, or deleted) being kept as it is, with no error; the
  inputs of the other entities, the nodes, the edges and the records are unchanged;
  and \<open>graph.results\<close> holds, for each former result in order, the value of
  \<open>get_optimization_result(result, default=result)\<close>.
\<close>

theorem optimize_repairs_after_change:
  assumes ap: "rule_apply (impl rule_type) (cached_rule impl cached rule_type) w
                 = Some (Inr True, p', w1)"
    and ri: "\<forall>succ \<in> set (consumers (rule_graph w1)). \<forall>inp \<in> set (inputs (rule_entities w1) succ).
                 \<exists>r. get_optimization_result (rule_records w1) (Some inp) None = Some (Inr r)"
    and rr: "\<forall>result \<in> set (results (rule_graph w1)).
                 \<exists>r. get_optimization_result (rule_records w1) result result = Some (Inr r)"
  shows "\<exists>w2. optimize_rules impl (rule_type # rule_types) cached w
                 = optimize_rules impl rule_types (cached(rule_type \<mapsto> p')) w2 \<and>
           rule_records w2 = rule_records w1 \<and>
           nodes (rule_graph w2) = nodes (rule_graph w1) \<and>
           edges (rule_graph w2) = edges (rule_graph w1) \<and>
           (\<forall>n. inputs (rule_entities w2) n =
              (if n \<in> set (consumers (rule_graph w1))
               then map (resolved_input (rule_records w1)) (inputs (rule_entities w1) n)
               else inputs (rule_entities w1) n)) \<and>
           list_all2 (\<lambda>result r. get_optimization_result (rule_records w1) result result = Some (Inr r))
             (results (rule_graph w1)) (results (rule_graph w2))"
proof -
  from repair_eq [OF ri rr] obtain w2 where w2: "repair w1 = Some (None, w2)"
    "rule_records w2 = rule_records w1"
    "nodes (rule_graph w2) = nodes (rule_graph w1)"
    "edges (rule_graph w2) = edges (rule_graph w1)"
    "\<forall>n. inputs (rule_entities w2) n =
              (if n \<in> set (consumers (rule_graph w1))
               then map (resolved_input (rule_records w1)) (inputs (rule_entities w1) n)
               else inputs (rule_entities w1) n)"
    "list_all2 (\<lambda>result r. get_optimization_result (rule_records w1) result result = Some (Inr r))
             (results (rule_graph w1)) (results (rule_graph w2))"
    by blast
  have "optimize_rules impl (rule_type # rule_types) cached w
          = optimize_rules impl rule_types (cached(rule_type \<mapsto> p')) w2"
    by (simp add: ap w2(1))
  with w2 show ?thesis by blast
qed

text \<open>
  The rule of \<open>join_state\<close> deletes node 1, an input of the surviving node 2. The
  repair keeps that input, and \<open>optimize\<close> returns without an error.
\<close>

theorem optimize_repairs_after_change_witness:
  "\<exists>w2. optimize_rules (\<lambda>rt. deleting_rule) [()] Map.empty join_state = Some (None, w2) \<and>
        nodes (rule_graph w2) = [3, 2] \<and>
        inputs (rule_entities w2) 2 = [1, 3] \<and>
        results (rule_graph w2) = [Some 2]"
proof -
  have cons: "consumers (rule_graph join_after) = [2]"
    by (simp add: join_after_fields consumers_def successors_def iter_nodes_def)
  have ri: "\<forall>succ \<in> set (consumers (rule_graph join_after)).
              \<forall>inp \<in> set (inputs (rule_entities join_after) succ).
                \<exists>r. get_optimization_result (rule_records join_after) (Some inp) None = Some (Inr r)"
    using join_lookups by (auto simp add: cons join_after_fields)
  have rr: "\<forall>result \<in> set (results (rule_graph join_after)).
              \<exists>r. get_optimization_result (rule_records join_after) result result = Some (Inr r)"
    using join_lookups by (auto simp add: join_after_fields)
  from optimize_repairs_after_change [OF join_apply ri rr, of "[]"] obtain w2
    where w2: "optimize_rules (\<lambda>rt. deleting_rule) [()] Map.empty join_state = Some (None, w2)"
      "nodes (rule_graph w2) = nodes (rule_graph join_after)"
      "\<forall>n. inputs (rule_entities w2) n =
              (if n \<in> set (consumers (rule_graph join_after))
               then map (resolved_input (rule_records join_after)) (inputs (rule_entities join_after) n)
               else inputs (rule_entities join_after) n)"
      "list_all2 (\<lambda>result r. get_optimization_result (rule_records join_after) result result = Some (Inr r))
             (results (rule_graph join_after)) (results (rule_graph w2))"
    by auto
  from w2(3) have "inputs (rule_entities w2) 2 = [1, 3]"
    using join_lookups by (simp add: cons join_after_fields resolved_input_def)
  moreover from w2(4) have "results (rule_graph w2) = [Some 2]"
    using join_lookups by (auto simp add: join_after_fields list_all2_Cons1)
  ultimately show ?thesis using w2(1,2) by (simp add: join_after_fields)
qed

text \<open>
  C3 as stated fails: after the rule has deleted node 1, the lookup of input 1 of the
  surviving node 2 yields the deleted outcome \<open>None\<close>, even for the fallback 1, and
  \<open>optimize\<close> returns with no error and with node 2 still reading input 1.
\<close>

theorem deleted_input_not_fatal_counterexample:
  "map_option (\<lambda>(e, w'). (e, nodes (rule_graph w'), inputs (rule_entities w') 2,
                  get_optimization_result (rule_records w') (Some 1) (Some 1)))
     (optimize (\<lambda>rt. deleting_rule) (Some [()]) join_state)
   = Some (None, [3, 2], [1, 3], Some (Inr None))"
  by code_simp

section \<open>State that outlives a call of \<open>optimize\<close>\<close>

text \<open>
  A record with a \<open>tileable\<close> comes from an entity only, so \<open>mark_value\<close> marks
  whatever lines 241 and 244 mark.
\<close>

lemma extract_tileable_entity:
  "extract_eval_expression depth ops p w v = Some (Inr r, p', w') \<Longrightarrow> tileable r \<noteq> None \<Longrightarrow>
     \<exists>n. v = Entity n"
  by (cases depth; cases v)
     (auto simp add: no_record_def next_var_id_def Let_def split: prod.splits)

text \<open>
  The name given to a scalar that is not a literal follows \<open>_var_counter\<close>, which no
  call of \<open>optimize\<close> resets; and an entity found in \<open>_extract_result_cache\<close> is
  answered from the cache, with no node marked and nothing extracted.
\<close>

lemma extract_scalar:
  "extract_eval_expression (Suc depth) ops p w (Scalar x) =
     Some (Inr \<lparr>tileable = None,
                expr = Some (''@__eval_scalar_var'' @ str_nat (var_counter w + 1)),
                variables = Some [(''__eval_scalar_var'' @ str_nat (var_counter w + 1), x)]\<rparr>,
           p, w\<lparr>var_counter := var_counter w + 1\<rparr>)"
  by (simp add: next_var_id_def Let_def)

lemma extract_cached:
  "extract_result_cache w n = Some r \<Longrightarrow>
     extract_eval_expression (Suc depth) ops p w (Entity n) = Some (Inr r, p, w)"
  by simp

text \<open>
  The same sum extracted from two states that differ in the counter only, the second
  with the counter as the first extraction leaves it: the expressions differ.
\<close>

lemma sum_expr_follows_counter:
  "map_option (\<lambda>(r, p, w). (map_sum id expr r, var_counter w))
     (extract_eval_expression 3 sum_ops [] sum_state (Entity 2))
     = Some (Inr (Some ''(`a`) + (@__eval_scalar_var1)''), 1) \<and>
   map_option (\<lambda>(r, p, w). (map_sum id expr r, var_counter w))
     (extract_eval_expression 3 sum_ops [] (sum_state\<lparr>var_counter := 1\<rparr>) (Entity 2))
     = Some (Inr (Some ''(`a`) + (@__eval_scalar_var2)''), 2)"
  by code_simp

lemma repair_call_state:
  assumes "call_state w = call_state w'"
  shows "map_option (\<lambda>(e, w2). (e, call_state w2)) (repair w) =
         map_option (\<lambda>(e, w2). (e, call_state w2)) (repair w')"
proof -
  from assms have eq: "rule_graph w = rule_graph w'" "rule_entities w = rule_entities w'"
    "rule_records w = rule_records w'"
    by (simp_all add: call_state_def)
  show ?thesis
    by (simp add: repair_def eq call_state_def
        split: option.splits prod.splits sum.splits)
qed

lemma optimize_rules_call_state:
  assumes "\<forall>rule_type \<in> set rule_types. ignores_shared (impl rule_type)"
    and "call_state w = call_state w'"
  shows "outcome (optimize_rules impl rule_types cached w) =
         outcome (optimize_rules impl rule_types cached w')"
  using assms
proof (induction rule_types arbitrary: cached w w')
  case Nil
  then show ?case by (simp add: outcome_def)
next
  case (Cons rule_type rule_types)
  let ?p = "cached_rule impl cached rule_type"
  let ?R = "impl rule_type"
  from Cons.prems have ign: "ignores_shared ?R"
    and rest: "\<forall>rule_type \<in> set rule_types. ignores_shared (impl rule_type)"
    by simp_all
  from ign Cons.prems(2)
  have ap: "map_option (\<lambda>(r, p', w1). (r, p', call_state w1)) (rule_apply ?R ?p w) =
            map_option (\<lambda>(r, p', w1). (r, p', call_state w1)) (rule_apply ?R ?p w')"
    unfolding ignores_shared_def by blast
  show ?case
  proof (cases "rule_apply ?R ?p w")
    case None
    with ap have "rule_apply ?R ?p w' = None" by simp
    with None show ?thesis by (simp add: outcome_def)
  next
    case (Some res)
    obtain r p' w1 where res: "res = (r, p', w1)" by (cases res)
    from ap Some res
    have "map_option (\<lambda>(r, p', w1). (r, p', call_state w1)) (rule_apply ?R ?p w')
            = Some (r, p', call_state w1)"
      by simp
    then obtain res' where "rule_apply ?R ?p w' = Some res'"
      and "(\<lambda>(r, p', w1). (r, p', call_state w1)) res' = (r, p', call_state w1)"
      unfolding map_option_eq_Some by blast
    then obtain w1' where ap': "rule_apply ?R ?p w' = Some (r, p', w1')"
      and cs1: "call_state w1 = call_state w1'"
      by (cases res') auto
    show ?thesis
    proof (cases r)
      case (Inl e)
      with Some res ap' cs1 show ?thesis by (simp add: outcome_def)
    next
      case (Inr changed)
      show ?thesis
      proof (cases changed)
        case False
        have "optimize_rules impl (rule_type # rule_types) cached w =
                optimize_rules impl rule_types (cached(rule_type \<mapsto> p')) w1"
          and "optimize_rules impl (rule_type # rule_types) cached w' =
                optimize_rules impl rule_types (cached(rule_type \<mapsto> p')) w1'"
          using Some res ap' Inr False by simp_all
        then show ?thesis
          using Cons.IH [OF rest cs1, of "cached(rule_type \<mapsto> p')"] by (simp only:)
      next
        case True
        note rp = repair_call_state [OF cs1]
        show ?thesis
        proof (cases "repair w1")
          case None
          with rp have "repair w1' = None" by simp
          with None Some res ap' Inr True show ?thesis by (simp add: outcome_def)
        next
          case rs: (Some res2)
          obtain e2 w2 where res2: "res2 = (e2, w2)" by (cases res2)
          from rp rs res2
          have "map_option (\<lambda>(e, w2). (e, call_state w2)) (repair w1')
                  = Some (e2, call_state w2)"
            by simp
          then obtain res2' where "repair w1' = Some res2'"
            and "(\<lambda>(e, w2). (e, call_state w2)) res2' = (e2, call_state w2)"
            unfolding map_option_eq_Some by blast
          then obtain w2' where rp': "repair w1' = Some (e2, w2')"
            and cs2: "call_state w2 = call_state w2'"
            by (cases res2') auto
          show ?thesis
          proof (cases e2)
            case None
            have "optimize_rules impl (rule_type # rule_types) cached w =
                    optimize_rules impl rule_types (cached(rule_type \<mapsto> p')) w2"
              and "optimize_rules impl (rule_type # rule_types) cached w' =
                    optimize_rules impl rule_types (cached(rule_type \<mapsto> p')) w2'"
              using \<open>rule_apply ?R ?p w = Some res\<close> res ap' Inr True rs res2 rp' None
              by simp_all
            then show ?thesis
              using Cons.IH [OF rest cs2, of "cached(rule_type \<mapsto> p')"] by (simp only:)
          next
            case (Some e)
            with \<open>rule_apply ?R ?p w = Some res\<close> res ap' Inr True rs res2 rp' cs2 show ?thesis
              by (simp add: outcome_def)
          qed
        qed
      qed
    qed
  qed
qed

lemma deleting_rule_ignores_shared: "ignores_shared deleting_rule"
  by (simp add: ignores_shared_def deleting_rule_def call_state_def)

text \<open>
  C8, as amended. \<open>optimize\<close> makes the records and the rule instances anew at each
  call, and \<open>optimize\<close> itself, with \<open>_replace_inputs\<close> and the update of the results,
  reads and writes nothing else that outlives the call. What outlives it belongs to
  classes and to a module: \<open>_preds_to_remove\<close>, \<open>_extract_result_cache\<close> and
  \<open>_var_counter\<close>. When the \<open>apply\<close> of no registered rule type depends on those
  three, two calls of \<open>optimize\<close> on equal graphs with equal entities have equal
  outcomes (whether the call returns, the error raised, the graph, the inputs of the
  entities and the records), whatever records, entries of the two dictionaries and
  count earlier calls have left.
\<close>

theorem optimize_outcome_without_shared_state:
  assumes "\<forall>rule_type \<in> set rule_types. ignores_shared (impl rule_type)"
    and "rule_graph w = rule_graph w'"
    and "rule_entities w = rule_entities w'"
  shows "outcome (optimize impl (Some rule_types) w) =
         outcome (optimize impl (Some rule_types) w')"
proof -
  from assms(2,3)
  have "call_state (w\<lparr>rule_records := init_records\<rparr>) =
        call_state (w'\<lparr>rule_records := init_records\<rparr>)"
    by (simp add: call_state_def)
  from optimize_rules_call_state [OF assms(1) this] show ?thesis
    by (simp add: optimize_def)
qed

text \<open>
  The rule of \<open>join_state\<close> reads the graph and the records only. After earlier calls
  have left records, an entry in each dictionary and a counter at 5, the call has the
  outcome it has from the fresh state.
\<close>

theorem optimize_outcome_without_shared_state_witness:
  "rule_graph join_state_later = rule_graph join_state \<and>
   rule_entities join_state_later = rule_entities join_state \<and>
   rule_records join_state_later \<noteq> rule_records join_state \<and>
   preds_to_remove join_state_later \<noteq> preds_to_remove join_state \<and>
   extract_result_cache join_state_later \<noteq> extract_result_cache join_state \<and>
   var_counter join_state_later \<noteq> var_counter join_state \<and>
   outcome (optimize (\<lambda>rt. deleting_rule) (Some [()]) join_state_later) =
   outcome (optimize (\<lambda>rt. deleting_rule) (Some [()]) join_state)"
proof -
  have sh: "\<forall>rule_type \<in> set [()]. ignores_shared ((\<lambda>rt. deleting_rule) rule_type)"
    by (simp add: deleting_rule_ignores_shared)
  have g: "rule_graph join_state_later = rule_graph join_state"
    and e: "rule_entities join_state_later = rule_entities join_state"
    by (simp_all add: join_state_later_def)
  have "records (rule_records join_state_later) \<noteq> records (rule_records join_state)"
    by (simp add: join_state_later_def join_state_def store_12_23_def append_record_def
        init_records_def Let_def)
  then have r: "rule_records join_state_later \<noteq> rule_records join_state"
    by auto
  have "preds_to_remove join_state_later 3 \<noteq> preds_to_remove join_state 3"
    and "extract_result_cache join_state_later 2 \<noteq> extract_result_cache join_state 2"
    by (simp_all add: join_state_later_def join_state_def)
  then have d: "preds_to_remove join_state_later \<noteq> preds_to_remove join_state"
    "extract_result_cache join_state_later \<noteq> extract_result_cache join_state"
    by auto
  have c: "var_counter join_state_later \<noteq> var_counter join_state"
    by (simp add: join_state_later_def join_state_def)
  from optimize_outcome_without_shared_state [OF sh g e] g e r d c show ?thesis by simp
qed

text \<open>
  C8 as stated fails. The first call of \<open>optimize\<close> on the graph of \<open>fork_state\<close> keeps
  node 1 and leaves \<open>{3, 4}\<close> under node 1 in \<open>_preds_to_remove\<close>. The second call, with
  the same rule on an equal graph, finds that entry, removes node 1 and records its
  deletion: its outcome is not the one it has when no call came before.
\<close>

theorem state_survives_optimize_counterexample:
  "map_option (\<lambda>(e, w'). (e, nodes (rule_graph w'), records (rule_records w'))) first_run
     = Some (None, [1, 3, 4], []) \<and>
   map_option (\<lambda>(e, w'). (e, nodes (rule_graph w'), records (rule_records w'))) second_run
     = Some (None, [3, 4], [d1])"
  by code_simp

end
